theory Spec2Isabelle
  imports Main
begin

section \<open>Go runtime: integers, durations, instants, strings\<close>

text \<open>
  Go's \<open>int\<close> and \<open>time.Duration\<close> are 64-bit two's complement here. They are modelled
  as \<open>int\<close> with the wrap-around written out by \<open>wrap64\<close>. A \<open>time.Duration\<close> counts
  nanoseconds. A \<open>time.Time\<close> is the number of nanoseconds since the Unix epoch, and
  \<open>Sub\<close> saturates as the library's does. Integer division truncates towards zero and
  panics on a zero divisor. A Go \<open>string\<close> is a sequence of bytes: \<open>string\<close>.
  A \<open>float64\<close> is a type variable \<open>'f\<close> of which only \<open>0\<close>, \<open>+\<close> and \<open>-\<close> are used
  and no law is assumed, so that every result also holds of IEEE arithmetic.
\<close>

datatype panic = IntegerDivideByZero | NilPointerDereference

datatype 'a go_result = Panicked panic | Errored string | Returned 'a

definition wrap64 :: "int \<Rightarrow> int" where
  "wrap64 x = (x + 2 ^ 63) mod 2 ^ 64 - 2 ^ 63"

definition quot :: "int \<Rightarrow> int \<Rightarrow> int" where
  "quot a b = sgn a * sgn b * (\<bar>a\<bar> div \<bar>b\<bar>)"

definition Millisecond :: int where "Millisecond = 1000000"
definition Second :: int where "Second = 1000000000"
definition Minute :: int where "Minute = 60 * Second"

definition maxDuration :: int where "maxDuration = 2 ^ 63 - 1"
definition minDuration :: int where "minDuration = - (2 ^ 63)"

definition zeroTime :: int where
  "zeroTime = - 62135596800 * Second"

definition Since :: "int \<Rightarrow> int \<Rightarrow> int" where
  "Since now t =
     (if now - t > maxDuration then maxDuration
      else if now - t < minDuration then minDuration
      else now - t)"

definition min_go :: "int \<Rightarrow> int \<Rightarrow> int" where
  "min_go a b = (if a < b then a else b)"

definition max_go :: "int \<Rightarrow> int \<Rightarrow> int" where
  "max_go a b = (if a > b then a else b)"

text \<open>\<open>%d\<close> of \<open>fmt.Sprintf\<close>: decimal digits, with a minus sign for a negative number.\<close>

function digits :: "int \<Rightarrow> string" where
  "digits n = (if n < 10 then [char_of (48 + n)] else digits (n div 10) @ [char_of (48 + n mod 10)])"
  by pat_completeness auto
termination
  by (relation "measure nat") auto

definition itoa :: "int \<Rightarrow> string" where
  "itoa i = (if i < 0 then CHR ''-'' # digits (- i) else digits i)"

text \<open>
  \<open>strings.TrimSpace\<close> removes the leading and the trailing white space of a string, as
  Unicode defines it. On the UTF-8 bytes of a Go string these are the encodings listed in
  \<open>spaceRunes\<close>: the six ASCII ones, U+0085, U+00A0, U+1680, U+2000 to U+200A, U+2028,
  U+2029, U+202F, U+205F and U+3000.
\<close>

definition spaceRunes :: "string list" where
  "spaceRunes =
     [ [CHR 0x09], [CHR 0x0A], [CHR 0x0B], [CHR 0x0C], [CHR 0x0D], [CHR 0x20],
      [CHR 0xC2, CHR 0x85], [CHR 0xC2, CHR 0xA0],
      [CHR 0xE1, CHR 0x9A, CHR 0x80],
      [CHR 0xE2, CHR 0x80, CHR 0x80], [CHR 0xE2, CHR 0x80, CHR 0x81],
      [CHR 0xE2, CHR 0x80, CHR 0x82], [CHR 0xE2, CHR 0x80, CHR 0x83],
      [CHR 0xE2, CHR 0x80, CHR 0x84], [CHR 0xE2, CHR 0x80, CHR 0x85],
      [CHR 0xE2, CHR 0x80, CHR 0x86], [CHR 0xE2, CHR 0x80, CHR 0x87],
      [CHR 0xE2, CHR 0x80, CHR 0x88], [CHR 0xE2, CHR 0x80, CHR 0x89],
      [CHR 0xE2, CHR 0x80, CHR 0x8A],
      [CHR 0xE2, CHR 0x80, CHR 0xA8], [CHR 0xE2, CHR 0x80, CHR 0xA9],
      [CHR 0xE2, CHR 0x80, CHR 0xAF],
      [CHR 0xE2, CHR 0x81, CHR 0x9F],
      [CHR 0xE3, CHR 0x80, CHR 0x80]]"

fun stripOne :: "string list \<Rightarrow> string \<Rightarrow> string option" where
  "stripOne [] s = None"
| "stripOne (e # es) s =
     (if e \<noteq> [] \<and> take (length e) s = e then Some (drop (length e) s) else stripOne es s)"

function trimLeft :: "string list \<Rightarrow> string \<Rightarrow> string" where
  "trimLeft es s =
     (case stripOne es s of
        None \<Rightarrow> s
      | Some rest \<Rightarrow> if length rest < length s then trimLeft es rest else s)"
  by pat_completeness auto
termination
  by (relation "measure (\<lambda>(es, s). length s)") auto

definition TrimSpace :: "string \<Rightarrow> string" where
  "TrimSpace s = rev (trimLeft (map rev spaceRunes) (rev (trimLeft spaceRunes s)))"

section \<open>Data model\<close>

text \<open>\<open>storage.APIKey\<close>.\<close>

record APIKey =
  key_ID :: string
  key_Key :: string
  key_Name :: string
  key_CreatedAt :: int

text \<open>\<open>models.Usage\<close>, the record of a report.\<close>

record 'f Usage =
  u_ID :: string
  u_Key :: string
  u_StartDate :: string
  u_EndDate :: string
  u_TotalAllowance :: 'f
  u_OrgTotalUsed :: 'f
  u_Remaining :: 'f
  u_UsedRatio :: 'f
  u_LastUpdated :: int
  u_Error :: string

text \<open>\<open>storage.Usage\<close>, the record of the usage cache: it has no credential field.\<close>

record 'f StorageUsage =
  su_ID :: string
  su_StartDate :: string
  su_EndDate :: string
  su_TotalAllowance :: 'f
  su_OrgTotalUsed :: 'f
  su_Remaining :: 'f
  su_UsedRatio :: 'f
  su_LastUpdated :: int
  su_Error :: string

text \<open>\<open>models.FactoryAPIResponse\<close>, flattened.\<close>

record 'f FactoryAPIResponse =
  resp_StartDate :: int
  resp_EndDate :: int
  resp_OrgTotalTokensUsed :: 'f
  resp_TotalAllowance :: 'f
  resp_UsedRatio :: 'f

record 'f Totals =
  TotalOrgTotalTokensUsed :: 'f
  TotalAllowance :: 'f

record 'f AggregatedData =
  UpdateTime :: string
  TotalCount :: nat
  Totals :: "'f Totals"
  Data :: "'f Usage list"

record ImportResult =
  Success :: int
  Failed :: int
  Duplicates :: int

record Task =
  t_ID :: string
  t_APIKey :: string

text \<open>A \<open>Result\<close> holds a pointer to a usage record, which may be nil, and an error.\<close>

record 'f Result =
  r_ID :: string
  r_Usage :: "'f Usage option"
  r_Error :: "string option"

record WorkerPool =
  maxWorkers :: int
  queueSize :: int

record APIKeyService =
  workerPool :: WorkerPool
  cacheTTL :: int

definition NewWorkerPool :: "int \<Rightarrow> int \<Rightarrow> WorkerPool" where
  "NewWorkerPool mw qs = \<lparr>maxWorkers = mw, queueSize = qs\<rparr>"

definition NewAPIKeyService :: "WorkerPool \<Rightarrow> APIKeyService" where
  "NewAPIKeyService wp = \<lparr>workerPool = wp, cacheTTL = 5 * Minute\<rparr>"

text \<open>A usage record of which only the identifier and the error are set.\<close>

definition errorUsage :: "string \<Rightarrow> string \<Rightarrow> ('f::zero) Usage" where
  "errorUsage ident msg =
     \<lparr>u_ID = ident, u_Key = '''', u_StartDate = '''', u_EndDate = '''',
      u_TotalAllowance = 0, u_OrgTotalUsed = 0, u_Remaining = 0, u_UsedRatio = 0,
      u_LastUpdated = zeroTime, u_Error = msg\<rparr>"

section \<open>Remote fetcher\<close>

text \<open>
  What the network answers to one call of \<open>fetchUsageFromAPI\<close>: building the request
  fails, the transport fails, or a response comes with a status code and a body that
  decodes or does not. \<open>fetched_at\<close> is the clock when the record is built, and
  \<open>date_of\<close> formats Unix seconds as a calendar date in the process's time zone.
\<close>

datatype 'f http_reply =
    NewRequestError string
  | DoError string
  | Response int "string + 'f FactoryAPIResponse"

record 'f fetch_world =
  reply :: "'f http_reply"
  fetched_at :: int
  date_of :: "int \<Rightarrow> string"

definition StatusOK :: int where "StatusOK = 200"

definition formatDate :: "(int \<Rightarrow> string) \<Rightarrow> int \<Rightarrow> string" where
  "formatDate fmt timestamp = (if timestamp = 0 then ''N/A'' else fmt (quot timestamp 1000))"

definition maskedKey :: "string \<Rightarrow> string" where
  "maskedKey apiKey =
     take (nat (min_go 4 (int (length apiKey)))) apiKey @ ''...'' @
     drop (nat (max_go 0 (int (length apiKey) - 4))) apiKey"

definition fetchUsageFromAPI ::
  "('f::{zero,minus}) fetch_world \<Rightarrow> string \<Rightarrow> string \<Rightarrow> 'f Usage option \<times> string option" where
  "fetchUsageFromAPI w ident apiKey =
     (case reply w of
        NewRequestError err \<Rightarrow> (None, Some err)
      | DoError err \<Rightarrow> (None, Some (''API request failed: '' @ err))
      | Response code body \<Rightarrow>
          if code \<noteq> StatusOK then (Some (errorUsage ident (''HTTP '' @ itoa code)), None)
          else (case body of
                  Inl err \<Rightarrow> (None, Some (''failed to decode response: '' @ err))
                | Inr apiResp \<Rightarrow>
                    (Some \<lparr>u_ID = ident, u_Key = maskedKey apiKey,
                           u_StartDate = formatDate (date_of w) (resp_StartDate apiResp),
                           u_EndDate = formatDate (date_of w) (resp_EndDate apiResp),
                           u_TotalAllowance = resp_TotalAllowance apiResp,
                           u_OrgTotalUsed = resp_OrgTotalTokensUsed apiResp,
                           u_Remaining = resp_TotalAllowance apiResp - resp_OrgTotalTokensUsed apiResp,
                           u_UsedRatio = resp_UsedRatio apiResp,
                           u_LastUpdated = fetched_at w, u_Error = ''''\<rparr>, None)))"

definition processTask :: "('f::{zero,minus}) fetch_world \<Rightarrow> Task \<Rightarrow> 'f Result" where
  "processTask w task =
     (case fetchUsageFromAPI w (t_ID task) (t_APIKey task) of
        (usage, err) \<Rightarrow> \<lparr>r_ID = t_ID task, r_Usage = usage, r_Error = err\<rparr>)"

section \<open>Batch coordinator\<close>

text \<open>
  \<open>BatchProcess\<close> runs beside the workers, the network and other callers of the pool.
  What they do is a parameter, the \<open>batch_world\<close>:
  \<^item> \<open>accepts i\<close> tells, for the key at position \<open>i\<close>, whether the task queue took the
    task at the first and at the second non-blocking send;
  \<^item> \<open>selected\<close> lists the cases that the \<open>select\<close> of the collecting loop takes, one per
    iteration, before the case of the deadline is taken: a result read from the pool's
    result queue (the task a worker processed, and what the network answered to it), or a
    tick. The deadline always comes, so the list is finite, and its end is the deadline.
  A result read from the queue need not belong to this batch: the queue is shared.
  The pool is running: \<open>Stop\<close> has not closed its queues. Printing is left out.
\<close>

datatype 'f select_case = ResultQueue Task "'f fetch_world" | TickerC

record 'f batch_world =
  accepts :: "nat \<Rightarrow> bool \<times> bool"
  selected :: "'f select_case list"

text \<open>
  What the code does to the world is kept as a list of actions, in order: a non-blocking
  send of a task to the task queue with its outcome, a sleep, a send to \<open>resultChan\<close>,
  and the batched write of records to the usage cache.
\<close>

datatype 'f action =
    TrySend Task bool
  | Sleep int
  | ToResultChan "'f Result"
  | BatchSave "'f StorageUsage list"

record 'f submit_state =
  submitted :: nat
  resultChan :: "'f Result list"
  trace :: "'f action list"

definition timeoutDuration :: "nat \<Rightarrow> int \<Rightarrow> panic + int" where
  "timeoutDuration n mw =
     (if mw = 0 then Inl IntegerDivideByZero
      else let d = wrap64 (30 * Second + wrap64 (wrap64 (quot (int n) mw * 2) * Second))
           in Inr (if d > 5 * Minute then 5 * Minute else d))"

definition queueFull :: "string \<Rightarrow> 'f Result" where
  "queueFull ident = \<lparr>r_ID = ident, r_Usage = None, r_Error = Some ''task queue full''\<rparr>"

definition submitKey :: "bool \<times> bool \<Rightarrow> APIKey \<Rightarrow> 'f submit_state \<Rightarrow> 'f submit_state" where
  "submitKey a key st =
     (let task = \<lparr>t_ID = key_ID key, t_APIKey = key_Key key\<rparr>
      in if fst a
         then st\<lparr>submitted := submitted st + 1, trace := trace st @ [TrySend task True]\<rparr>
         else if snd a
         then st\<lparr>submitted := submitted st + 1,
                 trace := trace st @ [TrySend task False, Sleep (10 * Millisecond), TrySend task True]\<rparr>
         else st\<lparr>resultChan := resultChan st @ [queueFull (key_ID key)],
                 trace := trace st @ [TrySend task False, Sleep (10 * Millisecond), TrySend task False,
                                      ToResultChan (queueFull (key_ID key))]\<rparr>)"

fun submitLoop :: "(nat \<Rightarrow> bool \<times> bool) \<Rightarrow> nat \<Rightarrow> APIKey list \<Rightarrow> 'f submit_state \<Rightarrow> 'f submit_state" where
  "submitLoop acc i [] st = st"
| "submitLoop acc i (key # keys) st = submitLoop acc (i + 1) keys (submitKey (acc i) key st)"

text \<open>The collecting loop: it forwards what it reads to \<open>resultChan\<close> and counts.\<close>

fun collectLoop ::
  "nat \<Rightarrow> ('f::{zero,minus}) select_case list \<Rightarrow> nat \<times> 'f Result list \<Rightarrow> nat \<times> 'f Result list" where
  "collectLoop n [] (received, chan) = (received, chan)"
| "collectLoop n (c # cs) (received, chan) =
     (if received < n
      then (case c of
              ResultQueue task w \<Rightarrow> collectLoop n cs (received + 1, chan @ [processTask w task])
            | TickerC \<Rightarrow> collectLoop n cs (received, chan))
      else (received, chan))"

text \<open>The collector goroutine: it reads \<open>resultChan\<close> in order into the result map.\<close>

fun collector ::
  "('f::zero) Result list \<Rightarrow> (string \<rightharpoonup> 'f Usage option) \<Rightarrow> (string \<rightharpoonup> 'f Usage option)" where
  "collector [] resultMap = resultMap"
| "collector (r # rs) resultMap =
     collector rs
       (case r_Error r of
          Some e \<Rightarrow> resultMap(r_ID r \<mapsto> Some (errorUsage (r_ID r) e))
        | None \<Rightarrow> resultMap(r_ID r \<mapsto> r_Usage r))"

definition orderedResults ::
  "APIKey list \<Rightarrow> (string \<rightharpoonup> ('f::zero) Usage option) \<Rightarrow> 'f Usage option list" where
  "orderedResults keys resultMap =
     map (\<lambda>key. case resultMap (key_ID key) of
                  Some usage \<Rightarrow> usage
                | None \<Rightarrow> Some (errorUsage (key_ID key) ''Processing timeout'')) keys"

definition submitAll :: "'f batch_world \<Rightarrow> APIKey list \<Rightarrow> 'f submit_state" where
  "submitAll bw keys = submitLoop (accepts bw) 0 keys \<lparr>submitted = 0, resultChan = [], trace = []\<rparr>"

definition recorded :: "('f::{zero,minus}) batch_world \<Rightarrow> APIKey list \<Rightarrow> 'f Result list" where
  "recorded bw keys = snd (collectLoop (length keys) (selected bw) (0, resultChan (submitAll bw keys)))"

text \<open>\<open>BatchProcess\<close> gives what it returns, and the actions it did.\<close>

definition BatchProcess ::
  "WorkerPool \<Rightarrow> ('f::{zero,minus}) batch_world \<Rightarrow> APIKey list \<Rightarrow>
   'f Usage option list go_result \<times> 'f action list" where
  "BatchProcess wp bw keys =
     (if length keys = 0 then (Returned [], [])
      else case timeoutDuration (length keys) (maxWorkers wp) of
             Inl p \<Rightarrow> (Panicked p, [])
           | Inr timeout \<Rightarrow>
               (Returned (orderedResults keys (collector (recorded bw keys) Map.empty)),
                trace (submitAll bw keys)))"

text \<open>The tasks that the task queue took from this batch: the ones a worker can get.\<close>

fun enqueued :: "'f action list \<Rightarrow> Task list" where
  "enqueued [] = []"
| "enqueued (TrySend task ok # as) = (if ok then task # enqueued as else enqueued as)"
| "enqueued (a # as) = enqueued as"

section \<open>Storage\<close>

text \<open>
  The store holds the keys and the usage cache, a map from identifiers to records.
  Redis can fail at each call, and an entry can expire: these are in the worlds below.
\<close>

record 'f Storage =
  st_keys :: "APIKey list"
  st_usage :: "string \<rightharpoonup> 'f StorageUsage"

text \<open>
  \<open>BatchSaveUsage\<close> writes each record under its identifier. A record that does not
  marshal is skipped, and a write may not reach Redis: \<open>lands\<close> tells which do.
\<close>

fun BatchSaveUsage ::
  "('f StorageUsage \<Rightarrow> bool) \<Rightarrow> 'f StorageUsage list \<Rightarrow> 'f Storage \<Rightarrow> 'f Storage" where
  "BatchSaveUsage lands [] store = store"
| "BatchSaveUsage lands (usage # usages) store =
     BatchSaveUsage lands usages
       (if lands usage then store\<lparr>st_usage := (st_usage store)(su_ID usage \<mapsto> usage)\<rparr> else store)"

text \<open>
  \<open>SaveAPIKey\<close> writes the key under its identifier and adds the identifier to the set
  of keys: a key that had the same identifier is replaced.
\<close>

definition SaveAPIKey :: "APIKey \<Rightarrow> 'f Storage \<Rightarrow> 'f Storage" where
  "SaveAPIKey key store =
     store\<lparr>st_keys := filter (\<lambda>k. key_ID k \<noteq> key_ID key) (st_keys store) @ [key]\<rparr>"

text \<open>\<open>GetAllAPIKeys\<close> and \<open>GetUsage\<close>: the call fails with Redis, or reads the store.\<close>

definition GetAllAPIKeys :: "string option \<Rightarrow> 'f Storage \<Rightarrow> string + APIKey list" where
  "GetAllAPIKeys fails store = (case fails of Some err \<Rightarrow> Inl err | None \<Rightarrow> Inr (st_keys store))"

definition GetUsage ::
  "string option \<Rightarrow> 'f Storage \<Rightarrow> string \<Rightarrow> 'f StorageUsage option \<times> string option" where
  "GetUsage fails store ident =
     (case fails of Some err \<Rightarrow> (None, Some err) | None \<Rightarrow> (st_usage store ident, None))"

section \<open>Key service\<close>

definition maskKey :: "string \<Rightarrow> string" where
  "maskKey key =
     (if length key \<le> 8 then key else take 4 key @ ''...'' @ drop (length key - 4) key)"

record APIKeyMasked =
  m_ID :: string
  m_Name :: string
  m_Masked :: string
  m_CreatedAt :: int

definition GetAllKeys :: "string option \<Rightarrow> 'f Storage \<Rightarrow> string + APIKeyMasked list" where
  "GetAllKeys fails store =
     (case GetAllAPIKeys fails store of
        Inl err \<Rightarrow> Inl err
      | Inr keys \<Rightarrow>
          Inr (map (\<lambda>key. \<lparr>m_ID = key_ID key, m_Name = key_Name key,
                             m_Masked = maskKey (key_Key key), m_CreatedAt = key_CreatedAt key\<rparr>) keys))"

subsection \<open>ImportKeys\<close>

text \<open>
  The world of one import: whether listing the keys fails, and for the entry at position
  \<open>i\<close> the fresh UUID, the clock when the identifier is made and when the key is
  created, and whether saving the key fails.
\<close>

record import_world =
  list_error :: "string option"
  uuid_at :: "nat \<Rightarrow> string"
  id_clock :: "nat \<Rightarrow> int"
  created_clock :: "nat \<Rightarrow> int"
  save_error :: "nat \<Rightarrow> string option"

record 'f import_state =
  result :: ImportResult
  existingMap :: "string \<Rightarrow> bool"
  store :: "'f Storage"

fun existingKeysMap :: "APIKey list \<Rightarrow> (string \<Rightarrow> bool) \<Rightarrow> (string \<Rightarrow> bool)" where
  "existingKeysMap [] m = m"
| "existingKeysMap (k # ks) m = existingKeysMap ks (m(key_Key k := True))"

definition importKey :: "import_world \<Rightarrow> nat \<Rightarrow> string \<Rightarrow> 'f import_state \<Rightarrow> 'f import_state" where
  "importKey w i entry st =
     (let keyStr = TrimSpace entry
      in if keyStr = [] then st
         else if existingMap st keyStr
         then st\<lparr>result := (result st)\<lparr>Duplicates := Duplicates (result st) + 1\<rparr>\<rparr>
         else let ident = ''key-'' @ take 8 (uuid_at w i) @ ''-'' @ itoa (id_clock w i div Second);
                  apiKey = \<lparr>key_ID = ident, key_Key = keyStr, key_Name = ''Key '' @ ident,
                            key_CreatedAt = created_clock w i\<rparr>
              in case save_error w i of
                   Some err \<Rightarrow> st\<lparr>result := (result st)\<lparr>Failed := Failed (result st) + 1\<rparr>\<rparr>
                 | None \<Rightarrow>
                     st\<lparr>result := (result st)\<lparr>Success := Success (result st) + 1\<rparr>,
                        existingMap := (existingMap st)(keyStr := True),
                        store := SaveAPIKey apiKey (store st)\<rparr>)"

fun importLoop :: "import_world \<Rightarrow> nat \<Rightarrow> string list \<Rightarrow> 'f import_state \<Rightarrow> 'f import_state" where
  "importLoop w i [] st = st"
| "importLoop w i (entry # entries) st = importLoop w (i + 1) entries (importKey w i entry st)"

definition ImportKeys ::
  "import_world \<Rightarrow> 'f Storage \<Rightarrow> string list \<Rightarrow> (ImportResult \<times> string option) \<times> 'f Storage" where
  "ImportKeys w st keys =
     (let result0 = \<lparr>Success = 0, Failed = 0, Duplicates = 0\<rparr>
      in case GetAllAPIKeys (list_error w) st of
           Inl err \<Rightarrow> ((result0, Some err), st)
         | Inr existingKeys \<Rightarrow>
             (let fin = importLoop w 0 keys
                          \<lparr>result = result0,
                           existingMap = existingKeysMap existingKeys (\<lambda>k. False),
                           store = st\<rparr>
              in ((result fin, None), store fin)))"

subsection \<open>GetAggregatedData\<close>

text \<open>
  The world of one aggregation: whether listing the keys fails; for the key at position
  \<open>i\<close> whether reading its cached record fails and the clock when its age is taken;
  the world of the batch; which cache writes reach Redis; the formatted clock of the
  report.
\<close>

record 'f agg_world =
  keys_error :: "string option"
  usage_error :: "nat \<Rightarrow> string option"
  checked_at :: "nat \<Rightarrow> int"
  batch :: "'f batch_world"
  lands :: "'f StorageUsage \<Rightarrow> bool"
  update_time :: string

text \<open>
  The source appends the cached \<open>storage.Usage\<close> to the list of \<open>models.Usage\<close> as it
  is: the fields of the same name are kept, and there is no credential.
\<close>

definition fromStorage :: "'f StorageUsage \<Rightarrow> 'f Usage" where
  "fromStorage usage =
     \<lparr>u_ID = su_ID usage, u_Key = [], u_StartDate = su_StartDate usage,
      u_EndDate = su_EndDate usage, u_TotalAllowance = su_TotalAllowance usage,
      u_OrgTotalUsed = su_OrgTotalUsed usage, u_Remaining = su_Remaining usage,
      u_UsedRatio = su_UsedRatio usage, u_LastUpdated = su_LastUpdated usage,
      u_Error = su_Error usage\<rparr>"

definition storageUsage :: "'f Usage \<Rightarrow> 'f StorageUsage" where
  "storageUsage usage =
     \<lparr>su_ID = u_ID usage, su_StartDate = u_StartDate usage, su_EndDate = u_EndDate usage,
      su_TotalAllowance = u_TotalAllowance usage, su_OrgTotalUsed = u_OrgTotalUsed usage,
      su_Remaining = u_Remaining usage, su_UsedRatio = u_UsedRatio usage,
      su_LastUpdated = u_LastUpdated usage, su_Error = []\<rparr>"

fun partitionLoop ::
  "APIKeyService \<Rightarrow> 'f Storage \<Rightarrow> 'f agg_world \<Rightarrow> nat \<Rightarrow> APIKey list \<Rightarrow>
   'f Usage list \<times> APIKey list \<Rightarrow> 'f Usage list \<times> APIKey list" where
  "partitionLoop s st w i [] (cachedResults, uncachedKeys) = (cachedResults, uncachedKeys)"
| "partitionLoop s st w i (key # keys) (cachedResults, uncachedKeys) =
     partitionLoop s st w (i + 1) keys
       (case GetUsage (usage_error w i) st (key_ID key) of
          (Some usage, None) \<Rightarrow>
            if Since (checked_at w i) (su_LastUpdated usage) < cacheTTL s
            then (cachedResults @ [fromStorage usage], uncachedKeys)
            else (cachedResults, uncachedKeys @ [key])
        | _ \<Rightarrow> (cachedResults, uncachedKeys @ [key]))"

text \<open>
  The loop over \<open>freshResults\<close> reads the error of every record through its pointer, so a
  nil pointer panics there. Past it every pointer is known to point to a record, and the
  model goes on with the records: the loop returns them beside the valid results.
\<close>

fun validResults ::
  "'f Usage option list \<Rightarrow> 'f StorageUsage list \<times> 'f Usage list \<Rightarrow>
   panic + 'f StorageUsage list \<times> 'f Usage list" where
  "validResults [] (valid, seen) = Inr (valid, seen)"
| "validResults (p # ps) (valid, seen) =
     (case p of
        None \<Rightarrow> Inl NilPointerDereference
      | Some usage \<Rightarrow>
          validResults ps
            (if u_Error usage = [] then valid @ [storageUsage usage] else valid, seen @ [usage]))"

fun sumTotals :: "('f::plus) Usage list \<Rightarrow> 'f Totals \<Rightarrow> 'f Totals" where
  "sumTotals [] totals = totals"
| "sumTotals (usage # rest) totals =
     sumTotals rest
       (if u_Error usage = []
        then \<lparr>TotalOrgTotalTokensUsed = TotalOrgTotalTokensUsed totals + u_OrgTotalUsed usage,
              TotalAllowance = TotalAllowance totals + u_TotalAllowance usage\<rparr>
        else totals)"

definition report ::
  "('f::{zero,plus}) agg_world \<Rightarrow> APIKey list \<Rightarrow> 'f Usage list \<Rightarrow> 'f AggregatedData" where
  "report w keys allResults =
     \<lparr>UpdateTime = update_time w, TotalCount = length keys,
      Totals = sumTotals allResults \<lparr>TotalOrgTotalTokensUsed = 0, TotalAllowance = 0\<rparr>,
      Data = allResults\<rparr>"

definition partitionKeys ::
  "APIKeyService \<Rightarrow> 'f Storage \<Rightarrow> 'f agg_world \<Rightarrow> APIKey list \<Rightarrow> 'f Usage list \<times> APIKey list" where
  "partitionKeys s st w keys = partitionLoop s st w 0 keys ([], [])"

text \<open>
  \<open>GetAggregatedData\<close> gives what it returns, the store as it leaves it, and the
  actions it did.
\<close>

record 'f outcome =
  returned :: "'f AggregatedData go_result"
  store_after :: "'f Storage"
  actions :: "'f action list"

definition GetAggregatedData ::
  "APIKeyService \<Rightarrow> ('f::{zero,plus,minus}) agg_world \<Rightarrow> 'f Storage \<Rightarrow> 'f outcome" where
  "GetAggregatedData s w st =
     (case GetAllAPIKeys (keys_error w) st of
        Inl err \<Rightarrow>
          \<lparr>returned = Errored (''failed to get API keys: '' @ err), store_after = st, actions = []\<rparr>
      | Inr keys \<Rightarrow>
          if length keys = 0
          then \<lparr>returned = Returned \<lparr>UpdateTime = update_time w, TotalCount = 0,
                          Totals = \<lparr>TotalOrgTotalTokensUsed = 0, TotalAllowance = 0\<rparr>,
                          Data = []\<rparr>,
                store_after = st, actions = []\<rparr>
          else (case partitionKeys s st w keys of
                  (cachedResults, uncachedKeys) \<Rightarrow>
                    if length uncachedKeys > 0
                    then (case BatchProcess (workerPool s) (batch w) uncachedKeys of
                            (Panicked p, acts) \<Rightarrow>
                              \<lparr>returned = Panicked p, store_after = st, actions = acts\<rparr>
                          | (Errored err, acts) \<Rightarrow>
                              \<lparr>returned = Errored (''failed to process keys: '' @ err),
                               store_after = st, actions = acts\<rparr>
                          | (Returned freshResults, acts) \<Rightarrow>
                              (case validResults freshResults ([], []) of
                                 Inl p \<Rightarrow> \<lparr>returned = Panicked p, store_after = st, actions = acts\<rparr>
                               | Inr (valid, fresh) \<Rightarrow>
                                   if length valid > 0
                                   then \<lparr>returned = Returned (report w keys (cachedResults @ fresh)),
                                         store_after = BatchSaveUsage (lands w) valid st,
                                         actions = acts @ [BatchSave valid]\<rparr>
                                   else \<lparr>returned = Returned (report w keys (cachedResults @ fresh)),
                                         store_after = st, actions = acts\<rparr>))
                    else \<lparr>returned = Returned (report w keys cachedResults),
                          store_after = st, actions = []\<rparr>))"

section \<open>Notions of the specification\<close>

text \<open>
  What the specification says of the submission of one key: one non-blocking send; if
  the queue is full a sleep of ten milliseconds and one more send; if the queue is full
  again a queue-full result for the key, and nothing sent to a worker.
\<close>

definition keyActions :: "bool \<times> bool \<Rightarrow> APIKey \<Rightarrow> 'f action list" where
  "keyActions a key =
     (let task = \<lparr>t_ID = key_ID key, t_APIKey = key_Key key\<rparr>
      in if fst a then [TrySend task True]
         else [TrySend task False, Sleep (10 * Millisecond)] @
              (if snd a then [TrySend task True]
               else [TrySend task False, ToResultChan (queueFull (key_ID key))]))"

text \<open>The last of the recorded results that carries an identifier.\<close>

definition lastFor :: "string \<Rightarrow> 'f Result list \<Rightarrow> 'f Result option" where
  "lastFor ident rs =
     (if filter (\<lambda>r. r_ID r = ident) rs = [] then None
      else Some (last (filter (\<lambda>r. r_ID r = ident) rs)))"

text \<open>The record that stands for a recorded result in the result map.\<close>

definition recordOf :: "('f::zero) Result \<Rightarrow> 'f Usage option" where
  "recordOf r = (case r_Error r of Some e \<Rightarrow> Some (errorUsage (r_ID r) e) | None \<Rightarrow> r_Usage r)"

text \<open>
  A cache hit, in the words of the specification: reading the cached record of the key
  at position \<open>i\<close> gives a record, and the time since its last update is below the
  freshness window.
\<close>

definition cacheHit :: "APIKeyService \<Rightarrow> 'f Storage \<Rightarrow> 'f agg_world \<Rightarrow> nat \<times> APIKey \<Rightarrow> bool" where
  "cacheHit s st w = (\<lambda>(i, key).
     case GetUsage (usage_error w i) st (key_ID key) of
       (Some usage, None) \<Rightarrow> Since (checked_at w i) (su_LastUpdated usage) < cacheTTL s
     | _ \<Rightarrow> False)"

definition hits :: "APIKeyService \<Rightarrow> 'f Storage \<Rightarrow> 'f agg_world \<Rightarrow> APIKey list \<Rightarrow> (nat \<times> APIKey) list" where
  "hits s st w keys = filter (cacheHit s st w) (enumerate 0 keys)"

definition misses :: "APIKeyService \<Rightarrow> 'f Storage \<Rightarrow> 'f agg_world \<Rightarrow> APIKey list \<Rightarrow> (nat \<times> APIKey) list" where
  "misses s st w keys = filter (\<lambda>ik. \<not> cacheHit s st w ik) (enumerate 0 keys)"

definition cachedRecord :: "'f Storage \<Rightarrow> nat \<times> APIKey \<Rightarrow> 'f Usage list" where
  "cachedRecord st = (\<lambda>(i, key).
     case st_usage st (key_ID key) of Some usage \<Rightarrow> [fromStorage usage] | None \<Rightarrow> [])"

text \<open>The tasks that a list of actions offered to the task queue, taken or not.\<close>

fun offered :: "'f action list \<Rightarrow> Task list" where
  "offered [] = []"
| "offered (TrySend task ok # as) = task # offered as"
| "offered (a # as) = offered as"

text \<open>
  The record of each key of a batch: the record of the last result recorded under the
  identifier of the key, and the timeout record when there is none.
\<close>

definition batchRecords :: "('f::{zero,minus}) batch_world \<Rightarrow> APIKey list \<Rightarrow> 'f Usage list" where
  "batchRecords bw keys =
     map (\<lambda>key. case lastFor (key_ID key) (recorded bw keys) of
                  None \<Rightarrow> errorUsage (key_ID key) ''Processing timeout''
                | Some r \<Rightarrow> (case recordOf r of
                              Some usage \<Rightarrow> usage
                            | None \<Rightarrow> errorUsage (key_ID key) ''Processing timeout'')) keys"

text \<open>No cached record has an error.\<close>

definition errorFreeCache :: "'f Storage \<Rightarrow> bool" where
  "errorFreeCache st = (\<forall>ident usage. st_usage st ident = Some usage \<longrightarrow> su_Error usage = [])"

text \<open>Every cached record is stored under its own identifier.\<close>


definition ownIdent :: "'f Storage \<Rightarrow> bool" where
  "ownIdent st = (\<forall>ident usage. st_usage st ident = Some usage \<longrightarrow> su_ID usage = ident)"

text \<open>
  The usage caches that the write path of the aggregation makes: from an empty cache, by
  aggregations, and by anything that only removes entries (expiry, deletion of a key) or
  changes the keys.
\<close>

inductive writePath :: "APIKeyService \<Rightarrow> ('f::{zero,plus,minus}) Storage \<Rightarrow> bool" for s where
  empty: "st_usage st = Map.empty \<Longrightarrow> writePath s st"
| aggregated: "writePath s st \<Longrightarrow> writePath s (store_after (GetAggregatedData s w st))"
| removed: "writePath s st \<Longrightarrow>
            (\<forall>ident usage. st_usage st' ident = Some usage \<longrightarrow> st_usage st ident = Some usage) \<Longrightarrow>
            writePath s st'"

text \<open>The number of entries that an import counted, whatever the counter.\<close>

definition counted :: "ImportResult \<Rightarrow> int" where
  "counted r = Success r + Failed r + Duplicates r"

text \<open>The sum of a list of amounts as the loop over the records adds them up, from zero.\<close>

definition sumOf :: "('f::{zero,plus}) list \<Rightarrow> 'f" where
  "sumOf xs = foldl (+) 0 xs"

definition errorFree :: "'f Usage list \<Rightarrow> 'f Usage list" where
  "errorFree us = filter (\<lambda>usage. u_Error usage = []) us"

text \<open>
  The error of one fetch, in the words of the specification: a failure to build or to
  send the request, a status other than 200, or a body that does not decode.
\<close>

definition fetchError :: "'f fetch_world \<Rightarrow> string option" where
  "fetchError fw =
     (case reply fw of
        NewRequestError err \<Rightarrow> Some err
      | DoError err \<Rightarrow> Some (''API request failed: '' @ err)
      | Response code body \<Rightarrow>
          if code \<noteq> 200 then Some (''HTTP '' @ itoa code)
          else (case body of Inl err \<Rightarrow> Some (''failed to decode response: '' @ err)
                | Inr apiResp \<Rightarrow> None))"

text \<open>The results that the collecting loop can read: the cases of \<open>select\<close> but the ticks.\<close>

fun reads :: "'f select_case list \<Rightarrow> (Task \<times> 'f fetch_world) list" where
  "reads [] = []"
| "reads (ResultQueue task fw # cs) = (task, fw) # reads cs"
| "reads (TickerC # cs) = reads cs"

text \<open>The keys of a batch for which the task queue was full at both sends.\<close>

definition refused :: "'f batch_world \<Rightarrow> APIKey list \<Rightarrow> (nat \<times> APIKey) list" where
  "refused bw keys =
     filter (\<lambda>(i, key). \<not> fst (accepts bw i) \<and> \<not> snd (accepts bw i)) (enumerate 0 keys)"

section \<open>Worlds and stores for the examples\<close>

definition demo_service :: APIKeyService where
  "demo_service = NewAPIKeyService (NewWorkerPool 100 10000)"

definition keyA :: APIKey where
  "keyA = \<lparr>key_ID = ''a'', key_Key = ''fk-aaaaaaaaaaaaaaaa'', key_Name = ''Key a'', key_CreatedAt = 0\<rparr>"

definition keyB :: APIKey where
  "keyB = \<lparr>key_ID = ''b'', key_Key = ''fk-bbbbbbbbbbbbbbbb'', key_Name = ''Key b'', key_CreatedAt = 0\<rparr>"

definition keyC :: APIKey where
  "keyC = \<lparr>key_ID = ''c'', key_Key = ''fk-cccccccccccccccc'', key_Name = ''Key c'', key_CreatedAt = 0\<rparr>"

definition keyD :: APIKey where
  "keyD = \<lparr>key_ID = ''d'', key_Key = ''fk-dddddddddddddddd'', key_Name = ''Key d'', key_CreatedAt = 0\<rparr>"

definition recB :: "int StorageUsage" where
  "recB = \<lparr>su_ID = ''b'', su_StartDate = ''2024-01-01'', su_EndDate = ''2024-02-01'',
           su_TotalAllowance = 100, su_OrgTotalUsed = 40, su_Remaining = 60, su_UsedRatio = 0,
           su_LastUpdated = 1000 * Second, su_Error = []\<rparr>"

definition recC :: "int StorageUsage" where
  "recC = \<lparr>su_ID = ''c'', su_StartDate = [], su_EndDate = [],
           su_TotalAllowance = 7, su_OrgTotalUsed = 3, su_Remaining = 4, su_UsedRatio = 0,
           su_LastUpdated = 1000 * Second, su_Error = ''HTTP 500''\<rparr>"

text \<open>A store of two keys, the second with a cached record, and one with no cache.\<close>

definition demo_store :: "int Storage" where
  "demo_store = \<lparr>st_keys = [keyA, keyB], st_usage = [''b'' \<mapsto> recB]\<rparr>"

definition cold_store :: "int Storage" where
  "cold_store = \<lparr>st_keys = [keyA, keyB], st_usage = Map.empty\<rparr>"

text \<open>A store whose cache also holds a record with an error and nonzero amounts.\<close>

definition odd_store :: "int Storage" where
  "odd_store = \<lparr>st_keys = [keyB, keyC], st_usage = [''b'' \<mapsto> recB, ''c'' \<mapsto> recC]\<rparr>"

definition okReply :: "int \<Rightarrow> int \<Rightarrow> int fetch_world" where
  "okReply allowance used =
     \<lparr>reply = Response 200 (Inr \<lparr>resp_StartDate = 0, resp_EndDate = 1706745600000,
                                 resp_OrgTotalTokensUsed = used, resp_TotalAllowance = allowance,
                                 resp_UsedRatio = 0\<rparr>),
      fetched_at = 1061 * Second, date_of = (\<lambda>t. ''2024-02-01'')\<rparr>"

definition failReply :: "int http_reply \<Rightarrow> int fetch_world" where
  "failReply r = \<lparr>reply = r, fetched_at = 1061 * Second, date_of = (\<lambda>t. [])\<rparr>"

text \<open>
  A batch in which the queue takes every task at once and the result of the first key
  comes back, and one in which the queue is full for the key at position 1 and the
  results come back in the reverse order, the second with a transport failure.
\<close>

definition calm_batch :: "int batch_world" where
  "calm_batch =
     \<lparr>accepts = (\<lambda>i. (True, True)),
      selected = [TickerC, ResultQueue \<lparr>t_ID = ''a'', t_APIKey = key_Key keyA\<rparr> (okReply 50 20)]\<rparr>"

definition busy_batch :: "int batch_world" where
  "busy_batch =
     \<lparr>accepts = (\<lambda>i. if i = 1 then (False, False) else if i = 2 then (False, True) else (True, True)),
      selected = [ResultQueue \<lparr>t_ID = ''c'', t_APIKey = key_Key keyC\<rparr> (failReply (DoError ''timeout'')),
                  TickerC,
                  ResultQueue \<lparr>t_ID = ''a'', t_APIKey = key_Key keyA\<rparr> (failReply (Response 429 (Inl [])))]\<rparr>"

definition demo_world :: "int agg_world" where
  "demo_world =
     \<lparr>keys_error = None, usage_error = (\<lambda>i. None), checked_at = (\<lambda>i. 1060 * Second),
      batch = calm_batch, lands = (\<lambda>usage. True), update_time = ''2024-01-01 00:17:40''\<rparr>"

definition quiet_import :: import_world where
  "quiet_import =
     \<lparr>list_error = None, uuid_at = (\<lambda>i. ''3f2504e0-4f89-11d3-9a0c-0305e82c3301''),
      id_clock = (\<lambda>i. 1700000000 * Second), created_clock = (\<lambda>i. 1700000000 * Second),
      save_error = (\<lambda>i. None)\<rparr>"

section \<open>Properties of the Go runtime model\<close>

lemma wrap64_id: "- (2 ^ 63) \<le> x \<Longrightarrow> x < 2 ^ 63 \<Longrightarrow> wrap64 x = x"
  unfolding wrap64_def by (simp add: mod_pos_pos_trivial)

lemma quot_pos: "0 \<le> a \<Longrightarrow> 0 < b \<Longrightarrow> quot a b = a div b"
  unfolding quot_def by (cases "a = 0") (simp_all add: sgn_if)

section \<open>The deadline of a batch\<close>

text \<open>
  C4, as the code has it. With at least one worker, and as long as the quotient of the
  number of keys by the number of workers is at most 4611686003 (beyond it the 64-bit
  count of nanoseconds wraps around), the deadline of a batch is 30 seconds plus two
  seconds times the quotient, capped at five minutes; it then lies between 30 seconds
  and five minutes.
\<close>

theorem timeoutDuration_value:
  assumes "0 < mw" and "int n div mw \<le> 4611686003"
  shows "timeoutDuration n mw = Inr (min (30 * Second + (int n div mw) * (2 * Second)) (5 * Minute))
         \<and> 30 * Second \<le> min (30 * Second + (int n div mw) * (2 * Second)) (5 * Minute)
         \<and> min (30 * Second + (int n div mw) * (2 * Second)) (5 * Minute) \<le> 5 * Minute"
proof -
  define q where "q = int n div mw"
  have q0: "0 \<le> q" unfolding q_def using assms(1) by (simp add: pos_imp_zdiv_nonneg_iff)
  have qb: "q \<le> 4611686003" using assms(2) by (simp add: q_def)
  have e1: "quot (int n) mw = q" unfolding q_def using assms(1) by (simp add: quot_pos)
  have w1: "wrap64 (q * 2) = q * 2" using q0 qb by (intro wrap64_id) simp_all
  have w2: "wrap64 (q * 2 * Second) = q * 2 * Second"
    using q0 qb by (intro wrap64_id) (simp_all add: Second_def)
  have w3: "wrap64 (30 * Second + q * 2 * Second) = 30 * Second + q * 2 * Second"
    using q0 qb by (intro wrap64_id) (simp_all add: Second_def)
  have "timeoutDuration n mw = Inr (min (30 * Second + q * (2 * Second)) (5 * Minute))"
    using assms(1) unfolding timeoutDuration_def e1 Let_def w1 w2 w3
    by (simp add: min_def Second_def Minute_def)
  moreover have "30 * Second \<le> min (30 * Second + q * (2 * Second)) (5 * Minute)"
    using q0 by (simp add: Second_def Minute_def)
  ultimately show ?thesis unfolding q_def by simp
qed

theorem timeoutDuration_value_witness:
  "(0::int) < 100 \<and> int 5000 div 100 \<le> 4611686003
   \<and> timeoutDuration 5000 100 = Inr (130 * Second)
   \<and> timeoutDuration 50000 100 = Inr (5 * Minute)"
  using timeoutDuration_value [of 100 5000] timeoutDuration_value [of 100 50000]
  by (simp add: Second_def Minute_def)

text \<open>
  C4 as it is stated, for every number of keys and of workers, fails: with no worker the
  division panics, with a negative number of workers the deadline is below 30 seconds,
  and with 4611686019 keys for one worker the nanoseconds wrap around to a negative
  deadline.
\<close>

theorem timeoutDuration_counterexample:
  "timeoutDuration 1 0 = Inl IntegerDivideByZero
   \<and> timeoutDuration 100 (- 1) = Inr (- 170 * Second)
   \<and> timeoutDuration 4611686019 1 = Inr (- 9223372005709551616)"
  by (simp add: timeoutDuration_def wrap64_def quot_def Second_def Minute_def)

section \<open>Masking\<close>

lemma maskKey_long:
  "9 \<le> length key \<Longrightarrow> maskKey key = take 4 key @ ''...'' @ drop (length key - 4) key"
  by (simp add: maskKey_def)

lemma maskKey_short: "length key \<le> 8 \<Longrightarrow> maskKey key = key"
  by (simp add: maskKey_def)

lemma maskedKey_eq:
  "maskedKey apiKey = take 4 apiKey @ ''...'' @ drop (length apiKey - 4) apiKey"
proof -
  have "nat (int (length apiKey) - 4) = length apiKey - 4" by linarith
  then show ?thesis by (simp add: maskedKey_def min_go_def max_go_def)
qed

lemma maskedKey_long: "9 \<le> length apiKey \<Longrightarrow> maskedKey apiKey = maskKey apiKey"
  by (simp add: maskedKey_eq maskKey_def)

lemma fetched_key:
  "fetchUsageFromAPI w ident apiKey = (Some usage, None) \<Longrightarrow> u_Error usage = [] \<Longrightarrow>
   u_Key usage = maskedKey apiKey"
  by (auto simp: fetchUsageFromAPI_def errorUsage_def split: http_reply.splits if_splits sum.splits)

text \<open>
  C2 at a credential of eight bytes: \<open>maskKey\<close> returns it as it is, and the record that
  \<open>fetchUsageFromAPI\<close> builds from a response of status 200 carries it cut and joined
  by the dots.
\<close>

theorem fetched_key_of_short_credential:
  "map_option u_Key
     (fst (fetchUsageFromAPI
        \<lparr>reply = Response 200 (Inr \<lparr>resp_StartDate = 0, resp_EndDate = 0,
                                    resp_OrgTotalTokensUsed = 0 :: int, resp_TotalAllowance = 0,
                                    resp_UsedRatio = 0\<rparr>),
         fetched_at = 0, date_of = (\<lambda>t. [])\<rparr> ''key-1'' ''abcdefgh''))
     = Some ''abcd...efgh''
   \<and> maskKey ''abcdefgh'' = ''abcdefgh''"
  by (simp add: fetchUsageFromAPI_def StatusOK_def maskedKey_def maskKey_def min_go_def max_go_def)

section \<open>Importing keys\<close>

lemma TrimSpace_A: "TrimSpace ''A'' = ''A''" by code_simp
lemma TrimSpace_B: "TrimSpace ''B'' = ''B''" by code_simp

lemma existingKeysMap_iff: "existingKeysMap ks m k \<longleftrightarrow> m k \<or> k \<in> key_Key ` set ks"
  by (induction ks arbitrary: m) auto

lemma importLoop_append:
  "importLoop w i (xs @ ys) st = importLoop w (i + length xs) ys (importLoop w i xs st)"
  by (induction xs arbitrary: i st) simp_all

lemma importKey_existing_mono: "existingMap st k \<Longrightarrow> existingMap (importKey w i e st) k"
  by (simp add: importKey_def Let_def split: option.splits)

lemma importLoop_existing_mono: "existingMap st k \<Longrightarrow> existingMap (importLoop w i es st) k"
  by (induction es arbitrary: i st) (simp_all add: importKey_existing_mono)

lemma importKey_saved:
  "TrimSpace e \<noteq> [] \<Longrightarrow> save_error w i = None \<Longrightarrow> existingMap (importKey w i e st) (TrimSpace e)"
  by (simp add: importKey_def Let_def)

lemma importLoop_saved:
  "j < length es \<Longrightarrow> TrimSpace (es ! j) \<noteq> [] \<Longrightarrow> save_error w (i + j) = None \<Longrightarrow>
   existingMap (importLoop w i es st) (TrimSpace (es ! j))"
proof (induction es arbitrary: i j st)
  case Nil
  then show ?case by simp
next
  case (Cons e es)
  show ?case
  proof (cases j)
    case 0
    with Cons.prems show ?thesis
      by (simp add: importLoop_existing_mono importKey_saved)
  next
    case (Suc j')
    with Cons.prems Cons.IH [of j' "i + 1" "importKey w i e st"] show ?thesis by simp
  qed
qed

lemma importKey_duplicate:
  "TrimSpace e \<noteq> [] \<Longrightarrow> existingMap st (TrimSpace e) \<Longrightarrow>
   importKey w i e st = st\<lparr>result := (result st)\<lparr>Duplicates := Duplicates (result st) + 1\<rparr>\<rparr>"
  by (simp add: importKey_def Let_def)

lemma importKey_blank: "TrimSpace e = [] \<Longrightarrow> importKey w i e st = st"
  by (simp add: importKey_def)

lemma ImportKeys_loop:
  "list_error w = None \<Longrightarrow>
   ImportKeys w st es =
     (let fin = importLoop w 0 es
                     \<lparr>result = \<lparr>Success = 0, Failed = 0, Duplicates = 0\<rparr>,
                      existingMap = existingKeysMap (st_keys st) (\<lambda>k. False), store = st\<rparr>
      in ((result fin, None), store fin))"
  by (simp add: ImportKeys_def GetAllAPIKeys_def Let_def)

lemma ImportKeys_ABC:
  assumes "list_error w = None" and "\<forall>i. save_error w i = None"
  shows "fst (ImportKeys w \<lparr>st_keys = [], st_usage = u\<rparr> [''A'', ''A'', ''B''])
         = (\<lparr>Success = 2, Failed = 0, Duplicates = 1\<rparr>, None)"
  using assms
  by (simp add: ImportKeys_def GetAllAPIKeys_def importKey_def Let_def TrimSpace_A TrimSpace_B)

lemma ImportKeys_duplicate_entry:
  assumes w: "list_error w = None" and ne: "TrimSpace entry \<noteq> []"
    and dup: "TrimSpace entry \<in> key_Key ` set (st_keys st) \<or>
              (\<exists>j<length pre. TrimSpace (pre ! j) = TrimSpace entry \<and> save_error w j = None)"
  shows "fst (ImportKeys w st (pre @ [entry])) =
           ((fst (fst (ImportKeys w st pre)))
              \<lparr>Duplicates := Duplicates (fst (fst (ImportKeys w st pre))) + 1\<rparr>, None)
         \<and> snd (ImportKeys w st (pre @ [entry])) = snd (ImportKeys w st pre)"
proof -
  define st0 :: "'a import_state" where
    "st0 = \<lparr>result = \<lparr>Success = 0, Failed = 0, Duplicates = 0\<rparr>,
            existingMap = existingKeysMap (st_keys st) (\<lambda>k. False), store = st\<rparr>"
  have seen: "existingMap (importLoop w 0 pre st0) (TrimSpace entry)"
    using dup
  proof
    assume "TrimSpace entry \<in> key_Key ` set (st_keys st)"
    then have "existingMap st0 (TrimSpace entry)"
      by (simp add: st0_def existingKeysMap_iff)
    then show ?thesis by (rule importLoop_existing_mono)
  next
    assume "\<exists>j<length pre. TrimSpace (pre ! j) = TrimSpace entry \<and> save_error w j = None"
    then obtain j where j: "j < length pre" "TrimSpace (pre ! j) = TrimSpace entry"
      "save_error w j = None" by blast
    from importLoop_saved [of j pre w 0 st0] j ne show ?thesis by simp
  qed
  have snoc: "importLoop w 0 (pre @ [entry]) st0 = importKey w (length pre) entry (importLoop w 0 pre st0)"
    by (simp add: importLoop_append)
  show ?thesis
    unfolding ImportKeys_loop [OF w] Let_def st0_def [symmetric] snoc
    by (simp add: importKey_duplicate [OF ne seen])
qed

text \<open>
  C8. For the input \<open>["A", "A", "B"]\<close>, an empty store and no storage failure,
  \<open>ImportKeys\<close> returns two successes, one duplicate and no failure. In general an
  entry whose credential, the entry without the white space around it, is the credential
  of a stored key, or of an earlier entry of the batch whose save did not fail, adds one
  to the duplicates and nothing to the successes or the failures, and leaves the store
  as it is.
\<close>

theorem ImportKeys_duplicates:
  "(list_error w = None \<and> (\<forall>i. save_error w i = None) \<longrightarrow>
      fst (ImportKeys w \<lparr>st_keys = [], st_usage = u\<rparr> [''A'', ''A'', ''B''])
        = (\<lparr>Success = 2, Failed = 0, Duplicates = 1\<rparr>, None))
   \<and> (list_error w = None \<and> TrimSpace entry \<noteq> [] \<and>
        (TrimSpace entry \<in> key_Key ` set (st_keys st) \<or>
         (\<exists>j<length pre. TrimSpace (pre ! j) = TrimSpace entry \<and> save_error w j = None)) \<longrightarrow>
      fst (ImportKeys w st (pre @ [entry])) =
        ((fst (fst (ImportKeys w st pre)))
           \<lparr>Duplicates := Duplicates (fst (fst (ImportKeys w st pre))) + 1\<rparr>, None)
      \<and> snd (ImportKeys w st (pre @ [entry])) = snd (ImportKeys w st pre))"
  using ImportKeys_ABC [of w u] ImportKeys_duplicate_entry [of w entry st pre] by blast

theorem ImportKeys_duplicates_witness:
  "list_error quiet_import = None \<and> (\<forall>i. save_error quiet_import i = None)
   \<and> TrimSpace '' A '' \<noteq> []
   \<and> TrimSpace ([''A''] ! 0) = TrimSpace '' A '' \<and> save_error quiet_import 0 = None
   \<and> fst (ImportKeys quiet_import \<lparr>st_keys = [], st_usage = (Map.empty :: string \<rightharpoonup> int StorageUsage)\<rparr>
            [''A'', ''A'', ''B''])
        = (\<lparr>Success = 2, Failed = 0, Duplicates = 1\<rparr>, None)
   \<and> fst (ImportKeys quiet_import cold_store [''A'', '' A '']) =
        (\<lparr>Success = 1, Failed = 0, Duplicates = 1\<rparr>, None)
   \<and> key_Key keyA \<in> key_Key ` set (st_keys cold_store)
   \<and> fst (ImportKeys quiet_import cold_store [key_Key keyA]) =
        (\<lparr>Success = 0, Failed = 0, Duplicates = 1\<rparr>, None)"
proof -
  have q: "list_error quiet_import = None" "\<And>i. save_error quiet_import i = None"
    by (simp_all add: quiet_import_def)
  have t: "TrimSpace '' A '' = ''A''" by code_simp
  have k: "TrimSpace (key_Key keyA) = key_Key keyA" by code_simp
  have kin: "key_Key keyA \<in> key_Key ` set (st_keys cold_store)"
    by (simp add: cold_store_def)
  have pre: "fst (fst (ImportKeys quiet_import cold_store [''A''])) = \<lparr>Success = 1, Failed = 0, Duplicates = 0\<rparr>"
    by code_simp
  have nil: "fst (fst (ImportKeys quiet_import cold_store [])) = \<lparr>Success = 0, Failed = 0, Duplicates = 0\<rparr>"
    by code_simp
  have a: "fst (ImportKeys quiet_import \<lparr>st_keys = [], st_usage = (Map.empty :: string \<rightharpoonup> int StorageUsage)\<rparr>
            [''A'', ''A'', ''B''])
        = (\<lparr>Success = 2, Failed = 0, Duplicates = 1\<rparr>, None)"
    using ImportKeys_duplicates [of quiet_import "Map.empty :: string \<rightharpoonup> int StorageUsage" "[]" cold_store "[]"] q
    by simp
  have b: "fst (ImportKeys quiet_import cold_store [''A'', '' A '']) =
        (\<lparr>Success = 1, Failed = 0, Duplicates = 1\<rparr>, None)"
    using ImportKeys_duplicates [of quiet_import "Map.empty :: string \<rightharpoonup> int StorageUsage" "'' A ''" cold_store "[''A'']"] q
    by (simp add: t TrimSpace_A pre)
  have c: "fst (ImportKeys quiet_import cold_store [key_Key keyA]) =
        (\<lparr>Success = 0, Failed = 0, Duplicates = 1\<rparr>, None)"
    using ImportKeys_duplicates [of quiet_import "Map.empty :: string \<rightharpoonup> int StorageUsage" "key_Key keyA" cold_store "[]"] q kin
    by (simp add: k nil) (simp add: keyA_def)
  show ?thesis using q t a b c kin by (simp add: TrimSpace_A)
qed

lemma importKey_counted:
  "counted (result (importKey w i entry st)) =
   counted (result st) + (if TrimSpace entry = [] then 0 else 1)"
  by (simp add: importKey_def counted_def Let_def split: option.splits)

lemma importLoop_counted:
  "counted (result (importLoop w i entries st)) =
   counted (result st) + int (length (filter (\<lambda>e. TrimSpace e \<noteq> []) entries))"
  by (induction entries arbitrary: i st) (simp_all add: importKey_counted)

text \<open>
  C10. An entry that is empty once the white space is trimmed changes nothing: neither a
  counter nor the store. The three counters add up to the number of entries that are not
  blank, which is below the length of the input as soon as one entry is blank.
\<close>

theorem ImportKeys_blank_entries:
  "(list_error w = None \<and> TrimSpace entry = [] \<longrightarrow>
      ImportKeys w st (pre @ [entry]) = ImportKeys w st pre)
   \<and> (list_error w = None \<longrightarrow>
      counted (fst (fst (ImportKeys w st keys))) = int (length (filter (\<lambda>e. TrimSpace e \<noteq> []) keys)))"
proof (intro conjI impI)
  assume "list_error w = None \<and> TrimSpace entry = []"
  then show "ImportKeys w st (pre @ [entry]) = ImportKeys w st pre"
    by (simp add: ImportKeys_loop importLoop_append importKey_blank)
next
  assume "list_error w = None"
  then show "counted (fst (fst (ImportKeys w st keys))) = int (length (filter (\<lambda>e. TrimSpace e \<noteq> []) keys))"
    by (simp add: ImportKeys_loop Let_def importLoop_counted) (simp add: counted_def)
qed

theorem ImportKeys_blank_entries_witness:
  "list_error quiet_import = None \<and> TrimSpace ''  '' = []
   \<and> ImportKeys quiet_import cold_store ([''A''] @ [''  '']) = ImportKeys quiet_import cold_store [''A'']
   \<and> counted (fst (fst (ImportKeys quiet_import cold_store [''  '', ''A'', []]))) = 1
   \<and> counted (fst (fst (ImportKeys quiet_import cold_store [''  '', ''A'', []]))) < int (length [''  '', ''A'', []])"
proof -
  have q: "list_error quiet_import = None" by (simp add: quiet_import_def)
  have t: "TrimSpace ''  '' = []" "TrimSpace [] = []" by code_simp+
  show ?thesis
    using ImportKeys_blank_entries [of quiet_import "''  ''" cold_store "[''A'']" "[''  '', ''A'', []]"] q t
    by (simp add: TrimSpace_A)
qed

section \<open>Totals\<close>

lemma sumTotals_foldl:
  "sumTotals us totals =
     \<lparr>TotalOrgTotalTokensUsed =
        foldl (+) (TotalOrgTotalTokensUsed totals) (map u_OrgTotalUsed (errorFree us)),
      TotalAllowance = foldl (+) (TotalAllowance totals) (map u_TotalAllowance (errorFree us))\<rparr>"
  by (induction us arbitrary: totals) (simp_all add: errorFree_def)

lemma report_Totals:
  "Totals (report w keys us) =
     \<lparr>TotalOrgTotalTokensUsed = sumOf (map u_OrgTotalUsed (errorFree us)),
      TotalAllowance = sumOf (map u_TotalAllowance (errorFree us))\<rparr>"
  by (simp add: report_def sumTotals_foldl sumOf_def)

lemma report_Data: "Data (report w keys us) = us"
  by (simp add: report_def)

lemma returned_cases:
  assumes "returned (GetAggregatedData s w st) = Returned d"
  shows "(d = \<lparr>UpdateTime = update_time w, TotalCount = 0,
               Totals = \<lparr>TotalOrgTotalTokensUsed = 0, TotalAllowance = 0\<rparr>, Data = []\<rparr>)
         \<or> (\<exists>keys us. d = report w keys us)"
  using assms
  by (auto simp: GetAggregatedData_def split: sum.splits if_splits prod.splits go_result.splits)

text \<open>
  C7. In every report that the aggregation returns, each total is the sum, as the loop adds
  it up from zero, of the field over the records of the report whose error is empty. A
  record whose error is not empty changes no total, whatever its amounts.
\<close>

theorem totals_over_error_free:
  "(returned (GetAggregatedData s w st) = Returned d \<longrightarrow>
      Totals d = \<lparr>TotalOrgTotalTokensUsed = sumOf (map u_OrgTotalUsed (errorFree (Data d))),
                  TotalAllowance = sumOf (map u_TotalAllowance (errorFree (Data d)))\<rparr>)
   \<and> (u_Error usage \<noteq> [] \<longrightarrow>
        sumTotals (before @ usage # after) totals = sumTotals (before @ after) totals)"
proof (intro conjI impI)
  assume "returned (GetAggregatedData s w st) = Returned d"
  from returned_cases [OF this]
  show "Totals d = \<lparr>TotalOrgTotalTokensUsed = sumOf (map u_OrgTotalUsed (errorFree (Data d))),
                    TotalAllowance = sumOf (map u_TotalAllowance (errorFree (Data d)))\<rparr>"
    by (auto simp: report_Totals report_Data) (simp_all add: sumOf_def errorFree_def)
next
  assume "u_Error usage \<noteq> []"
  then show "sumTotals (before @ usage # after) totals = sumTotals (before @ after) totals"
    by (simp add: sumTotals_foldl errorFree_def)
qed

lemma odd_run:
  "returned (GetAggregatedData demo_service demo_world odd_store) =
     Returned \<lparr>UpdateTime = ''2024-01-01 00:17:40'', TotalCount = 2,
               Totals = \<lparr>TotalOrgTotalTokensUsed = 40, TotalAllowance = 100\<rparr>,
               Data = [fromStorage recB, fromStorage recC]\<rparr>"
  by code_simp

theorem totals_over_error_free_witness:
  "returned (GetAggregatedData demo_service demo_world odd_store) =
     Returned \<lparr>UpdateTime = ''2024-01-01 00:17:40'', TotalCount = 2,
               Totals = \<lparr>TotalOrgTotalTokensUsed = 40, TotalAllowance = 100\<rparr>,
               Data = [fromStorage recB, fromStorage recC]\<rparr>
   \<and> u_Error (fromStorage recC) \<noteq> [] \<and> u_OrgTotalUsed (fromStorage recC) = 3
   \<and> sumTotals ([fromStorage recB] @ fromStorage recC # []) \<lparr>TotalOrgTotalTokensUsed = 0, TotalAllowance = 0\<rparr>
       = sumTotals [fromStorage recB] \<lparr>TotalOrgTotalTokensUsed = 0, TotalAllowance = 0\<rparr>
   \<and> sumOf (map u_OrgTotalUsed (errorFree [fromStorage recB, fromStorage recC])) = 40
   \<and> sumOf (map u_TotalAllowance (errorFree [fromStorage recB, fromStorage recC])) = 100"
  using totals_over_error_free [of demo_service demo_world odd_store
      "\<lparr>UpdateTime = ''2024-01-01 00:17:40'', TotalCount = 2,
        Totals = \<lparr>TotalOrgTotalTokensUsed = 40, TotalAllowance = 100\<rparr>,
        Data = [fromStorage recB, fromStorage recC]\<rparr>" "fromStorage recC" "[fromStorage recB]" "[]"
      "\<lparr>TotalOrgTotalTokensUsed = 0, TotalAllowance = 0\<rparr>"]
    odd_run
  by (simp add: fromStorage_def recC_def recB_def errorFree_def sumOf_def)

section \<open>The batch coordinator\<close>

subsection \<open>One fetch\<close>

lemma processTask_ID: "r_ID (processTask fw task) = t_ID task"
  by (simp add: processTask_def split: prod.splits)

lemma recordOf_processTask_error:
  "fetchError fw = Some msg \<Longrightarrow> recordOf (processTask fw task) = Some (errorUsage (t_ID task) msg)"
  by (auto simp: fetchError_def processTask_def fetchUsageFromAPI_def recordOf_def StatusOK_def
           split: http_reply.splits if_splits sum.splits)

lemma recordOf_processTask_ok:
  "fetchError fw = None \<Longrightarrow>
   \<exists>usage. recordOf (processTask fw task) = Some usage \<and> u_ID usage = t_ID task \<and> u_Error usage = []
      \<and> u_Key usage = maskedKey (t_APIKey task)"
  by (auto simp: fetchError_def processTask_def fetchUsageFromAPI_def recordOf_def StatusOK_def
           split: http_reply.splits if_splits sum.splits)

lemma recordOf_processTask:
  "\<exists>usage. recordOf (processTask fw task) = Some usage \<and> u_ID usage = t_ID task"
proof (cases "fetchError fw")
  case None
  from recordOf_processTask_ok [OF this, of task] show ?thesis by blast
next
  case (Some msg)
  from recordOf_processTask_error [OF this, of task] show ?thesis by (simp add: errorUsage_def)
qed

lemma recordOf_queueFull: "recordOf (queueFull ident) = Some (errorUsage ident ''task queue full'')"
  by (simp add: recordOf_def queueFull_def)

subsection \<open>The submitting loop\<close>

lemma submitKey_trace: "trace (submitKey a key st) = trace st @ keyActions a key"
  by (simp add: submitKey_def keyActions_def Let_def)

lemma submitKey_resultChan:
  "resultChan (submitKey a key st) =
   resultChan st @ (if \<not> fst a \<and> \<not> snd a then [queueFull (key_ID key)] else [])"
  by (simp add: submitKey_def Let_def)

lemma submitLoop_trace:
  "trace (submitLoop acc i keys st) =
   trace st @ concat (map (\<lambda>(j, key). keyActions (acc j) key) (enumerate i keys))"
  by (induction keys arbitrary: i st) (simp_all add: submitKey_trace)

lemma submitLoop_resultChan:
  "resultChan (submitLoop acc i keys st) =
   resultChan st @
   map (\<lambda>(j, key). queueFull (key_ID key))
     (filter (\<lambda>(j, key). \<not> fst (acc j) \<and> \<not> snd (acc j)) (enumerate i keys))"
  by (induction keys arbitrary: i st) (simp_all add: submitKey_resultChan)

lemma submitAll_trace:
  "trace (submitAll bw keys) =
   concat (map (\<lambda>(i, key). keyActions (accepts bw i) key) (enumerate 0 keys))"
  by (simp add: submitAll_def submitLoop_trace)

lemma submitAll_resultChan:
  "resultChan (submitAll bw keys) = map (\<lambda>(i, key). queueFull (key_ID key)) (refused bw keys)"
  by (simp add: submitAll_def submitLoop_resultChan refused_def)

subsection \<open>The collecting loop and the collector\<close>

lemma collectLoop_reads:
  "snd (collectLoop n cs (received, chan)) =
   chan @ map (\<lambda>(task, fw). processTask fw task) (take (n - received) (reads cs))"
proof (induction cs arbitrary: received chan)
  case Nil
  then show ?case by simp
next
  case (Cons c cs)
  show ?case
  proof (cases "received < n")
    case True
    then have "n - received = Suc (n - (received + 1))" by simp
    then show ?thesis using True Cons.IH
      by (cases c) simp_all
  next
    case False
    then show ?thesis by simp
  qed
qed

lemma recorded_eq:
  "recorded bw keys =
   map (\<lambda>(i, key). queueFull (key_ID key)) (refused bw keys) @
   map (\<lambda>(task, fw). processTask fw task) (take (length keys) (reads (selected bw)))"
  by (simp add: recorded_def collectLoop_reads submitAll_resultChan)

lemma lastFor_Nil: "lastFor ident [] = None"
  by (simp add: lastFor_def)

lemma lastFor_append:
  "lastFor ident (xs @ ys) = (case lastFor ident ys of Some r \<Rightarrow> Some r | None \<Rightarrow> lastFor ident xs)"
  by (simp add: lastFor_def)

lemma lastFor_Cons:
  "lastFor ident (r # rs) =
   (case lastFor ident rs of Some x \<Rightarrow> Some x | None \<Rightarrow> if r_ID r = ident then Some r else None)"
  by (simp add: lastFor_def)

lemma collector_lookup:
  "collector rs resultMap ident =
   (case lastFor ident rs of None \<Rightarrow> resultMap ident | Some r \<Rightarrow> Some (recordOf r))"
proof (induction rs arbitrary: resultMap)
  case Nil
  then show ?case by (simp add: lastFor_Nil)
next
  case (Cons r rs)
  show ?case
    by (simp add: Cons.IH lastFor_Cons recordOf_def split: option.splits)
qed

lemma lastFor_Some: "lastFor ident rs = Some r \<Longrightarrow> r \<in> set rs \<and> r_ID r = ident"
proof -
  assume a: "lastFor ident rs = Some r"
  then have ne: "filter (\<lambda>r. r_ID r = ident) rs \<noteq> []" and r: "r = last (filter (\<lambda>r. r_ID r = ident) rs)"
    by (auto simp: lastFor_def split: if_splits)
  from last_in_set [OF ne] r have "r \<in> set (filter (\<lambda>r. r_ID r = ident) rs)" by simp
  then show ?thesis by simp
qed

lemma lastFor_None: "lastFor ident rs = None \<longleftrightarrow> (\<forall>r\<in>set rs. r_ID r \<noteq> ident)"
  by (auto simp: lastFor_def filter_empty_conv)

lemma recorded_recordOf:
  "r \<in> set (recorded bw keys) \<Longrightarrow> \<exists>usage. recordOf r = Some usage \<and> u_ID usage = r_ID r"
proof -
  assume "r \<in> set (recorded bw keys)"
  then consider ident where "r = queueFull ident" | task fw where "r = processTask fw task"
    by (auto simp: recorded_eq dest: in_set_takeD)
  then show ?thesis
  proof cases
    case 1
    then show ?thesis by (simp add: recordOf_queueFull errorUsage_def) (simp add: queueFull_def)
  next
    case 2
    then show ?thesis using recordOf_processTask [of fw task] by (simp add: processTask_ID)
  qed
qed

subsection \<open>What the batch returns\<close>

lemma BatchProcess_returns:
  assumes "maxWorkers wp \<noteq> 0"
  shows "fst (BatchProcess wp bw keys) =
         Returned (map (\<lambda>key. case lastFor (key_ID key) (recorded bw keys) of
                                None \<Rightarrow> Some (errorUsage (key_ID key) ''Processing timeout'')
                              | Some r \<Rightarrow> recordOf r) keys)"
  using assms
  by (auto simp: BatchProcess_def timeoutDuration_def orderedResults_def collector_lookup Let_def
           split: option.splits)

lemma BatchProcess_actions:
  assumes "maxWorkers wp \<noteq> 0"
  shows "snd (BatchProcess wp bw keys) =
         concat (map (\<lambda>(i, key). keyActions (accepts bw i) key) (enumerate 0 keys))"
  using assms
  by (auto simp: BatchProcess_def timeoutDuration_def submitAll_trace Let_def)


text \<open>
  C3. With a pool whose number of workers is not zero, \<open>BatchProcess\<close> returns a list of
  records, one for each key, and no error, whatever the fetches did. A key for which no
  result was recorded gets a record whose error is \<open>Processing timeout\<close>. A key whose
  last recorded result is a fetch that failed (transport, status or decoding) gets a
  record that carries the error of that fetch.
\<close>

theorem BatchProcess_never_fails:
  assumes "maxWorkers wp \<noteq> 0"
  shows "\<exists>results. fst (BatchProcess wp bw keys) = Returned results \<and> length results = length keys
     \<and> (\<forall>i<length keys.
          (lastFor (key_ID (keys ! i)) (recorded bw keys) = None \<longrightarrow>
             results ! i = Some (errorUsage (key_ID (keys ! i)) ''Processing timeout''))
        \<and> (\<forall>task fw msg.
             lastFor (key_ID (keys ! i)) (recorded bw keys) = Some (processTask fw task)
             \<and> fetchError fw = Some msg \<longrightarrow>
             results ! i = Some (errorUsage (key_ID (keys ! i)) msg)))"
proof -
  let ?results = "map (\<lambda>key. case lastFor (key_ID key) (recorded bw keys) of
                       None \<Rightarrow> Some (errorUsage (key_ID key) ''Processing timeout'')
                     | Some r \<Rightarrow> recordOf r) keys"
  have ret: "fst (BatchProcess wp bw keys) = Returned ?results"
    by (rule BatchProcess_returns [OF assms])
  have "?results ! i = Some (errorUsage (key_ID (keys ! i)) msg)"
    if i: "i < length keys"
      and l: "lastFor (key_ID (keys ! i)) (recorded bw keys) = Some (processTask fw task)"
      and f: "fetchError fw = Some msg" for i task fw msg
  proof -
    from lastFor_Some [OF l] have "t_ID task = key_ID (keys ! i)" by (simp add: processTask_ID)
    with recordOf_processTask_error [OF f, of task] l i show ?thesis by simp
  qed
  moreover have "?results ! i = Some (errorUsage (key_ID (keys ! i)) ''Processing timeout'')"
    if "i < length keys" and "lastFor (key_ID (keys ! i)) (recorded bw keys) = None" for i
    using that by simp
  ultimately show ?thesis using ret by (intro exI [of _ ?results]) auto
qed

lemma enqueued_append: "enqueued (xs @ ys) = enqueued xs @ enqueued ys"
  by (induction xs rule: enqueued.induct) simp_all

lemma enqueued_keyActions:
  "enqueued (keyActions a key :: 'f action list) =
   (if fst a \<or> snd a then [\<lparr>t_ID = key_ID key, t_APIKey = key_Key key\<rparr>] else [])"
  by (simp add: keyActions_def Let_def)

lemma enqueued_concat:
  "enqueued (concat (map (\<lambda>(i, key). keyActions (acc i) key :: 'f action list) iks)) =
   map (\<lambda>(i, key). \<lparr>t_ID = key_ID key, t_APIKey = key_Key key\<rparr>)
     (filter (\<lambda>(i, key). fst (acc i) \<or> snd (acc i)) iks)"
  by (induction iks) (auto simp: enqueued_append enqueued_keyActions split: if_splits)

lemma refused_mem:
  "i < length keys \<Longrightarrow> \<not> fst (accepts bw i) \<Longrightarrow> \<not> snd (accepts bw i) \<Longrightarrow>
   (i, keys ! i) \<in> set (refused bw keys)"
  by (simp add: refused_def in_set_enumerate_eq)

lemma queue_full_recorded:
  assumes i: "i < length keys" and a: "\<not> fst (accepts bw i)" "\<not> snd (accepts bw i)"
  shows "queueFull (key_ID (keys ! i)) \<in> set (recorded bw keys)"
  using refused_mem [OF i a] by (force simp: recorded_eq)

lemma queue_full_last:
  assumes i: "i < length keys" and a: "\<not> fst (accepts bw i)" "\<not> snd (accepts bw i)"
    and quiet: "\<forall>task fw. (task, fw) \<in> set (reads (selected bw)) \<longrightarrow> t_ID task \<noteq> key_ID (keys ! i)"
  shows "lastFor (key_ID (keys ! i)) (recorded bw keys) = Some (queueFull (key_ID (keys ! i)))"
proof -
  let ?id = "key_ID (keys ! i)"
  let ?qf = "map (\<lambda>(i, key). queueFull (key_ID key)) (refused bw keys) :: 'a Result list"
  let ?fw = "map (\<lambda>(task, fw). processTask fw task) (take (length keys) (reads (selected bw)))"
  have "\<forall>r\<in>set ?fw. r_ID r \<noteq> ?id"
    using quiet by (auto simp: processTask_ID dest!: in_set_takeD)
  then have none: "lastFor ?id ?fw = None" by (simp add: lastFor_None)
  have "queueFull ?id \<in> set ?qf" using refused_mem [OF i a] by force
  moreover have "r_ID (queueFull ?id :: 'a Result) = ?id" by (simp add: queueFull_def)
  ultimately have "\<exists>r\<in>set ?qf. r_ID r = ?id" by blast
  then have "lastFor ?id ?qf \<noteq> None" unfolding lastFor_None by blast
  then obtain r where r: "lastFor ?id ?qf = Some r" by blast
  from lastFor_Some [OF r] have "r = queueFull ?id" by (auto simp: queueFull_def)
  with r none show ?thesis by (simp add: recorded_eq lastFor_append)
qed

text \<open>
  C5. With a pool whose number of workers is not zero, what \<open>BatchProcess\<close> does for
  the keys is, key after key, what the specification says of one submission: one send
  without blocking, then if the queue is full a sleep of ten milliseconds and one more
  send, then if the queue is full again a queue-full result. The tasks that the queue
  took are those of the keys for which a send succeeded, so the task of a key refused
  twice reaches no worker. Every key has its one record in the results, at its own
  position and with its identifier; the queue-full result of a key refused twice is
  recorded, and its record carries the error \<open>task queue full\<close> when no result read from
  the result queue bears the identifier of the key.
\<close>

theorem BatchProcess_queue_full:
  assumes "maxWorkers wp \<noteq> 0"
  shows "snd (BatchProcess wp bw keys) =
           concat (map (\<lambda>(i, key). keyActions (accepts bw i) key) (enumerate 0 keys))
     \<and> enqueued (snd (BatchProcess wp bw keys)) =
           map (\<lambda>(i, key). \<lparr>t_ID = key_ID key, t_APIKey = key_Key key\<rparr>)
             (filter (\<lambda>(i, key). fst (accepts bw i) \<or> snd (accepts bw i)) (enumerate 0 keys))
     \<and> (\<exists>results. fst (BatchProcess wp bw keys) = Returned results \<and> length results = length keys
         \<and> (\<forall>i<length keys.
               (\<exists>usage. results ! i = Some usage \<and> u_ID usage = key_ID (keys ! i))
             \<and> (\<not> fst (accepts bw i) \<and> \<not> snd (accepts bw i) \<longrightarrow>
                   queueFull (key_ID (keys ! i)) \<in> set (recorded bw keys)
                 \<and> ((\<forall>task fw. (task, fw) \<in> set (reads (selected bw)) \<longrightarrow>
                                  t_ID task \<noteq> key_ID (keys ! i)) \<longrightarrow>
                      results ! i = Some (errorUsage (key_ID (keys ! i)) ''task queue full'')))))"
proof -
  let ?results = "map (\<lambda>key. case lastFor (key_ID key) (recorded bw keys) of
                       None \<Rightarrow> Some (errorUsage (key_ID key) ''Processing timeout'')
                     | Some r \<Rightarrow> recordOf r) keys"
  have acts: "snd (BatchProcess wp bw keys) =
           concat (map (\<lambda>(i, key). keyActions (accepts bw i) key) (enumerate 0 keys))"
    by (rule BatchProcess_actions [OF assms])
  have enq: "enqueued (snd (BatchProcess wp bw keys)) =
           map (\<lambda>(i, key). \<lparr>t_ID = key_ID key, t_APIKey = key_Key key\<rparr>)
             (filter (\<lambda>(i, key). fst (accepts bw i) \<or> snd (accepts bw i)) (enumerate 0 keys))"
    unfolding acts by (rule enqueued_concat)
  have ret: "fst (BatchProcess wp bw keys) = Returned ?results"
    by (rule BatchProcess_returns [OF assms])
  have one: "\<exists>usage. ?results ! i = Some usage \<and> u_ID usage = key_ID (keys ! i)"
    if i: "i < length keys" for i
  proof (cases "lastFor (key_ID (keys ! i)) (recorded bw keys)")
    case None
    with i show ?thesis by (simp add: errorUsage_def)
  next
    case (Some r)
    from lastFor_Some [OF Some] recorded_recordOf [of r bw keys] Some i show ?thesis by auto
  qed
  have full: "?results ! i = Some (errorUsage (key_ID (keys ! i)) ''task queue full'')"
    if i: "i < length keys" and a: "\<not> fst (accepts bw i)" "\<not> snd (accepts bw i)"
      and q: "\<forall>task fw. (task, fw) \<in> set (reads (selected bw)) \<longrightarrow> t_ID task \<noteq> key_ID (keys ! i)"
    for i
    using queue_full_last [OF i a q] i by (simp add: recordOf_queueFull)
  show ?thesis
    using acts enq ret one full queue_full_recorded
    by (intro conjI exI [of _ ?results]) auto
qed


lemma busy_results:
  "fst (BatchProcess (workerPool demo_service) busy_batch [keyA, keyB, keyC, keyD]) =
   Returned [Some (errorUsage ''a'' ''HTTP 429''), Some (errorUsage ''b'' ''task queue full''),
             Some (errorUsage ''c'' ''API request failed: timeout''),
             Some (errorUsage ''d'' ''Processing timeout'')]"
  by code_simp

lemma busy_actions:
  "snd (BatchProcess (workerPool demo_service) busy_batch [keyA, keyB, keyC, keyD]) =
   [TrySend \<lparr>t_ID = ''a'', t_APIKey = key_Key keyA\<rparr> True,
    TrySend \<lparr>t_ID = ''b'', t_APIKey = key_Key keyB\<rparr> False, Sleep 10000000,
    TrySend \<lparr>t_ID = ''b'', t_APIKey = key_Key keyB\<rparr> False,
    ToResultChan \<lparr>r_ID = ''b'', r_Usage = None, r_Error = Some ''task queue full''\<rparr>,
    TrySend \<lparr>t_ID = ''c'', t_APIKey = key_Key keyC\<rparr> False, Sleep 10000000,
    TrySend \<lparr>t_ID = ''c'', t_APIKey = key_Key keyC\<rparr> True,
    TrySend \<lparr>t_ID = ''d'', t_APIKey = key_Key keyD\<rparr> True]"
  by code_simp

lemma demo_workers: "maxWorkers (workerPool demo_service) \<noteq> 0"
  by (simp add: demo_service_def NewAPIKeyService_def NewWorkerPool_def)

theorem BatchProcess_never_fails_witness:
  "maxWorkers (workerPool demo_service) \<noteq> 0
   \<and> lastFor (key_ID ([keyA, keyB, keyC, keyD] ! 3)) (recorded busy_batch [keyA, keyB, keyC, keyD]) = None
   \<and> lastFor (key_ID ([keyA, keyB, keyC, keyD] ! 2)) (recorded busy_batch [keyA, keyB, keyC, keyD])
       = Some (processTask (failReply (DoError ''timeout'')) \<lparr>t_ID = ''c'', t_APIKey = key_Key keyC\<rparr>)
   \<and> fetchError (failReply (DoError ''timeout'')) = Some ''API request failed: timeout''
   \<and> (\<exists>results. fst (BatchProcess (workerPool demo_service) busy_batch [keyA, keyB, keyC, keyD])
                    = Returned results
          \<and> length results = 4
          \<and> results ! 3 = Some (errorUsage ''d'' ''Processing timeout'')
          \<and> results ! 2 = Some (errorUsage ''c'' ''API request failed: timeout''))"
proof -
  let ?keys = "[keyA, keyB, keyC, keyD]"
  have l3: "lastFor (key_ID (?keys ! 3)) (recorded busy_batch ?keys) = None"
    by code_simp
  have l2: "lastFor (key_ID (?keys ! 2)) (recorded busy_batch ?keys)
       = Some (processTask (failReply (DoError ''timeout'')) \<lparr>t_ID = ''c'', t_APIKey = key_Key keyC\<rparr>)"
    by code_simp
  have fe: "fetchError (failReply (DoError ''timeout'')) = Some ''API request failed: timeout''"
    by (simp add: fetchError_def failReply_def)
  have ids: "key_ID (?keys ! 3) = ''d''" "key_ID (?keys ! 2) = ''c''"
    by (simp_all add: keyD_def keyC_def)
  from BatchProcess_never_fails [OF demo_workers, of busy_batch ?keys]
  obtain results where r: "fst (BatchProcess (workerPool demo_service) busy_batch ?keys) = Returned results"
    "length results = length ?keys"
    "\<forall>i<length ?keys.
          (lastFor (key_ID (?keys ! i)) (recorded busy_batch ?keys) = None \<longrightarrow>
             results ! i = Some (errorUsage (key_ID (?keys ! i)) ''Processing timeout''))
        \<and> (\<forall>task fw msg.
             lastFor (key_ID (?keys ! i)) (recorded busy_batch ?keys) = Some (processTask fw task)
             \<and> fetchError fw = Some msg \<longrightarrow>
             results ! i = Some (errorUsage (key_ID (?keys ! i)) msg))"
    by blast
  have i3: "3 < length ?keys" and i2: "2 < length ?keys" by simp_all
  from r(3) i3 l3 have a: "results ! 3 = Some (errorUsage (key_ID (?keys ! 3)) ''Processing timeout'')"
    by blast
  from r(3) i2 l2 fe
  have b: "results ! 2 = Some (errorUsage (key_ID (?keys ! 2)) ''API request failed: timeout'')"
    by blast
  show ?thesis
    using demo_workers l3 l2 fe r(1,2) a b unfolding ids by (intro conjI exI [of _ results]) simp_all
qed

theorem BatchProcess_queue_full_witness:
  "maxWorkers (workerPool demo_service) \<noteq> 0
   \<and> \<not> fst (accepts busy_batch 1) \<and> \<not> snd (accepts busy_batch 1)
   \<and> key_ID ([keyA, keyB, keyC, keyD] ! 1) = ''b''
   \<and> map (\<lambda>(task, fw). t_ID task) (reads (selected busy_batch)) = [''c'', ''a'']
   \<and> snd (BatchProcess (workerPool demo_service) busy_batch [keyA, keyB, keyC, keyD]) =
       [TrySend \<lparr>t_ID = ''a'', t_APIKey = key_Key keyA\<rparr> True,
        TrySend \<lparr>t_ID = ''b'', t_APIKey = key_Key keyB\<rparr> False, Sleep 10000000,
        TrySend \<lparr>t_ID = ''b'', t_APIKey = key_Key keyB\<rparr> False,
        ToResultChan \<lparr>r_ID = ''b'', r_Usage = None, r_Error = Some ''task queue full''\<rparr>,
        TrySend \<lparr>t_ID = ''c'', t_APIKey = key_Key keyC\<rparr> False, Sleep 10000000,
        TrySend \<lparr>t_ID = ''c'', t_APIKey = key_Key keyC\<rparr> True,
        TrySend \<lparr>t_ID = ''d'', t_APIKey = key_Key keyD\<rparr> True]
   \<and> (\<exists>results. fst (BatchProcess (workerPool demo_service) busy_batch [keyA, keyB, keyC, keyD])
                    = Returned results
          \<and> length results = 4
          \<and> results ! 1 = Some (errorUsage ''b'' ''task queue full''))"
proof -
  let ?keys = "[keyA, keyB, keyC, keyD]"
  have acc: "\<not> fst (accepts busy_batch 1)" "\<not> snd (accepts busy_batch 1)"
    by (simp_all add: busy_batch_def)
  have quiet: "\<forall>task fw. (task, fw) \<in> set (reads (selected busy_batch)) \<longrightarrow>
                   t_ID task \<noteq> key_ID (?keys ! 1)"
    by (auto simp: busy_batch_def keyB_def)
  have idb: "key_ID (?keys ! 1) = ''b''" by (simp add: keyB_def)
  from BatchProcess_queue_full [OF demo_workers, of busy_batch ?keys]
  obtain results where r: "fst (BatchProcess (workerPool demo_service) busy_batch ?keys) = Returned results"
    "length results = length ?keys"
    "\<forall>i<length ?keys.
               (\<exists>usage. results ! i = Some usage \<and> u_ID usage = key_ID (?keys ! i))
             \<and> (\<not> fst (accepts busy_batch i) \<and> \<not> snd (accepts busy_batch i) \<longrightarrow>
                   queueFull (key_ID (?keys ! i)) \<in> set (recorded busy_batch ?keys)
                 \<and> ((\<forall>task fw. (task, fw) \<in> set (reads (selected busy_batch)) \<longrightarrow>
                                  t_ID task \<noteq> key_ID (?keys ! i)) \<longrightarrow>
                      results ! i = Some (errorUsage (key_ID (?keys ! i)) ''task queue full'')))"
    by blast
  have i1: "1 < length ?keys" by simp
  from r(3) i1 acc quiet
  have b: "results ! 1 = Some (errorUsage (key_ID (?keys ! 1)) ''task queue full'')"
    by blast
  have rd: "map (\<lambda>(task, fw). t_ID task) (reads (selected busy_batch)) = [''c'', ''a'']"
    by (simp add: busy_batch_def)
  show ?thesis
    using demo_workers acc idb rd busy_actions r(1,2) b unfolding idb
    by (intro conjI exI [of _ results]) simp_all
qed

section \<open>The aggregation\<close>

subsection \<open>Partition of the keys\<close>

lemma Since_less:
  "minDuration < ttl \<Longrightarrow> ttl \<le> maxDuration \<Longrightarrow> Since now t < ttl \<longleftrightarrow> now - t < ttl"
  by (auto simp: Since_def)

lemma cacheHit_record:
  "cacheHit s st w (i, key) \<Longrightarrow>
   \<exists>usage. GetUsage (usage_error w i) st (key_ID key) = (Some usage, None)
     \<and> st_usage st (key_ID key) = Some usage \<and> cachedRecord st (i, key) = [fromStorage usage]"
  by (auto simp: cacheHit_def GetUsage_def cachedRecord_def split: option.splits prod.splits)

lemma partitionLoop_eq:
  "partitionLoop s st w i keys (cachedResults, uncachedKeys) =
     (cachedResults @ concat (map (cachedRecord st) (filter (cacheHit s st w) (enumerate i keys))),
      uncachedKeys @ map snd (filter (\<lambda>ik. \<not> cacheHit s st w ik) (enumerate i keys)))"
proof (induction keys arbitrary: i cachedResults uncachedKeys)
  case Nil
  then show ?case by simp
next
  case (Cons key keys)
  show ?case
  proof (cases "cacheHit s st w (i, key)")
    case True
    from cacheHit_record [OF True] obtain usage where
      u: "GetUsage (usage_error w i) st (key_ID key) = (Some usage, None)"
        "cachedRecord st (i, key) = [fromStorage usage]" by blast
    from True u(1) have "Since (checked_at w i) (su_LastUpdated usage) < cacheTTL s"
      by (simp add: cacheHit_def)
    with True u show ?thesis by (simp add: Cons.IH)
  next
    case False
    then show ?thesis
      by (auto simp: Cons.IH cacheHit_def split: option.splits prod.splits)
  qed
qed

lemma partitionKeys_eq:
  "partitionKeys s st w keys =
     (concat (map (cachedRecord st) (hits s st w keys)), map snd (misses s st w keys))"
  by (simp add: partitionKeys_def partitionLoop_eq hits_def misses_def)

lemma cachedRecord_hits:
  "concat (map (cachedRecord st) (filter (cacheHit s st w) iks)) =
   map (\<lambda>(i, key). fromStorage (the (st_usage st (key_ID key)))) (filter (cacheHit s st w) iks)"
proof (induction iks)
  case Nil
  then show ?case by simp
next
  case (Cons ik iks)
  obtain i key where ik: "ik = (i, key)" by (cases ik)
  show ?case using Cons.IH cacheHit_record [of s st w i key] by (auto simp: ik)
qed

lemma length_cached: "length (concat (map (cachedRecord st) (hits s st w keys))) = length (hits s st w keys)"
  by (simp add: hits_def cachedRecord_hits)

lemma length_hits_misses: "length (hits s st w keys) + length (misses s st w keys) = length keys"
  using sum_length_filter_compl [of "cacheHit s st w" "enumerate 0 keys"]
  by (simp add: hits_def misses_def)

lemma cached_IDs:
  assumes "ownIdent st"
  shows "map u_ID (concat (map (cachedRecord st) (hits s st w keys))) =
         map (\<lambda>(i, key). key_ID key) (hits s st w keys)"
proof -
  have "u_ID (fromStorage (the (st_usage st (key_ID key)))) = key_ID key"
    if "cacheHit s st w (i, key)" for i key
    using cacheHit_record [OF that] assms by (auto simp: ownIdent_def fromStorage_def)
  then show ?thesis
    unfolding hits_def cachedRecord_hits by (auto simp: comp_def)
qed

subsection \<open>The records of a batch\<close>

lemma BatchProcess_records:
  assumes "maxWorkers wp \<noteq> 0"
  shows "fst (BatchProcess wp bw keys) = Returned (map Some (batchRecords bw keys))"
proof -
  have eq: "(case lastFor (key_ID key) (recorded bw keys) of
           None \<Rightarrow> Some (errorUsage (key_ID key) ''Processing timeout'')
         | Some r \<Rightarrow> recordOf r) =
        Some (case lastFor (key_ID key) (recorded bw keys) of
                  None \<Rightarrow> errorUsage (key_ID key) ''Processing timeout''
                | Some r \<Rightarrow> (case recordOf r of
                              Some usage \<Rightarrow> usage
                            | None \<Rightarrow> errorUsage (key_ID key) ''Processing timeout''))" for key
  proof (cases "lastFor (key_ID key) (recorded bw keys)")
    case None
    then show ?thesis by simp
  next
    case (Some r)
    from lastFor_Some [OF Some] recorded_recordOf [of r bw keys] Some show ?thesis by auto
  qed
  show ?thesis
    unfolding BatchProcess_returns [OF assms] batchRecords_def by (simp add: eq)
qed

lemma batchRecords_IDs: "map u_ID (batchRecords bw keys) = map key_ID keys"
proof -
  have eq: "u_ID (case lastFor (key_ID key) (recorded bw keys) of
                  None \<Rightarrow> errorUsage (key_ID key) ''Processing timeout''
                | Some r \<Rightarrow> (case recordOf r of
                              Some usage \<Rightarrow> usage
                            | None \<Rightarrow> errorUsage (key_ID key) ''Processing timeout'')) = key_ID key" for key
  proof (cases "lastFor (key_ID key) (recorded bw keys)")
    case None
    then show ?thesis by (simp add: errorUsage_def)
  next
    case (Some r)
    from lastFor_Some [OF Some] recorded_recordOf [of r bw keys] Some show ?thesis by auto
  qed
  show ?thesis by (simp add: batchRecords_def eq)
qed

lemma length_batchRecords: "length (batchRecords bw keys) = length keys"
  by (simp add: batchRecords_def)

lemma validResults_Some:
  "validResults (map Some us) (valid, seen) =
   Inr (valid @ map storageUsage (errorFree us), seen @ us)"
  by (induction us arbitrary: valid seen) (simp_all add: errorFree_def)

subsection \<open>The aggregation as a whole\<close>

lemma empty_report:
  "\<lparr>UpdateTime = update_time w, TotalCount = 0,
    Totals = \<lparr>TotalOrgTotalTokensUsed = 0, TotalAllowance = 0\<rparr>, Data = []\<rparr> = report w [] []"
  by (simp add: report_def)

lemma GetAggregatedData_eq:
  assumes "keys_error w = None" and "maxWorkers (workerPool s) \<noteq> 0"
  shows "GetAggregatedData s w st =
     (let cachedResults = concat (map (cachedRecord st) (hits s st w (st_keys st)));
          uncachedKeys = map snd (misses s st w (st_keys st));
          fresh = batchRecords (batch w) uncachedKeys;
          valid = map storageUsage (errorFree fresh)
      in \<lparr>returned = Returned (report w (st_keys st) (cachedResults @ fresh)),
          store_after = (if valid = [] then st else BatchSaveUsage (lands w) valid st),
          actions = concat (map (\<lambda>(i, key). keyActions (accepts (batch w) i) key) (enumerate 0 uncachedKeys))
                    @ (if valid = [] then [] else [BatchSave valid])\<rparr>)"
proof (cases "st_keys st = []")
  case True
  then show ?thesis using assms(1)
    by (simp add: GetAggregatedData_def GetAllAPIKeys_def empty_report hits_def misses_def
        batchRecords_def errorFree_def)
next
  case False
  show ?thesis
  proof (cases "misses s st w (st_keys st) = []")
    case True
    then show ?thesis using assms(1) False
      by (simp add: GetAggregatedData_def GetAllAPIKeys_def partitionKeys_eq batchRecords_def errorFree_def)
  next
    case miss: False
    have bp: "BatchProcess (workerPool s) (batch w) (map snd (misses s st w (st_keys st))) =
          (Returned (map Some (batchRecords (batch w) (map snd (misses s st w (st_keys st))))),
           concat (map (\<lambda>(i, key). keyActions (accepts (batch w) i) key)
                     (enumerate 0 (map snd (misses s st w (st_keys st))))))"
      using BatchProcess_records [OF assms(2), of "batch w" "map snd (misses s st w (st_keys st))"]
        BatchProcess_actions [OF assms(2), of "batch w" "map snd (misses s st w (st_keys st))"]
      by (simp add: prod_eq_iff)
    show ?thesis using assms(1) False miss
      by (simp add: GetAggregatedData_def GetAllAPIKeys_def partitionKeys_eq bp validResults_Some Let_def)
  qed
qed


lemma offered_append: "offered (xs @ ys) = offered xs @ offered ys"
  by (induction xs rule: offered.induct) simp_all

lemma set_offered_keyActions:
  "set (offered (keyActions a key :: 'f action list)) = {\<lparr>t_ID = key_ID key, t_APIKey = key_Key key\<rparr>}"
  by (simp add: keyActions_def Let_def)

lemma set_offered_concat:
  "set (offered (concat (map (\<lambda>(i, key). keyActions (acc i) key :: 'f action list) iks))) =
   (\<lambda>(i, key). \<lparr>t_ID = key_ID key, t_APIKey = key_Key key\<rparr>) ` set iks"
  by (induction iks) (auto simp: offered_append set_offered_keyActions)

lemma set_offered_batch:
  "set (offered (concat (map (\<lambda>(i, key). keyActions (acc i) key :: 'f action list) (enumerate 0 keys)))) =
   (\<lambda>key. \<lparr>t_ID = key_ID key, t_APIKey = key_Key key\<rparr>) ` set keys"
proof -
  have "(\<lambda>(i, key). \<lparr>t_ID = key_ID key, t_APIKey = key_Key key\<rparr>) ` set (enumerate 0 keys) =
        (\<lambda>key. \<lparr>t_ID = key_ID key, t_APIKey = key_Key key\<rparr>) ` snd ` set (enumerate 0 keys)"
    by (force simp: image_iff)
  also have "snd ` set (enumerate 0 keys) = set keys"
    using map_snd_enumerate [of 0 keys] by (metis set_map)
  finally show ?thesis by (simp add: set_offered_concat)
qed

lemma hit_miss_distinct:
  assumes d: "distinct (map key_ID keys)"
    and h: "(i, key) \<in> set (hits s st w keys)" and m: "(j, key') \<in> set (misses s st w keys)"
  shows "key_ID key \<noteq> key_ID key'"
proof
  assume eq: "key_ID key = key_ID key'"
  from h have hi: "i < length keys" "key = keys ! i" "cacheHit s st w (i, key)"
    by (auto simp: hits_def in_set_enumerate_eq)
  from m have mj: "j < length keys" "key' = keys ! j" "\<not> cacheHit s st w (j, key')"
    by (auto simp: misses_def in_set_enumerate_eq)
  from eq hi mj have "map key_ID keys ! i = map key_ID keys ! j" by simp
  moreover have "i < length (map key_ID keys)" "j < length (map key_ID keys)"
    using hi(1) mj(1) by simp_all
  ultimately have "i = j" using d nth_eq_iff_index_eq by blast
  with hi mj show False by simp
qed

text \<open>
  C6. The partition accepts the cached record of every key that is a cache hit, and
  passes every other key, and no other, to the batch. When listing the keys works and the
  pool has workers, the tasks that the aggregation offers to the task queue are the
  tasks of the keys that are not hits: with keys of distinct identifiers, no task bears
  the identifier of a hit. The report starts with the accepted records. For a freshness
  window that a duration can hold, a hit is a key whose cached record is read and whose
  clock minus last update is below the window.
\<close>

theorem cache_hits_are_not_fetched:
  "partitionKeys s st w keys =
     (concat (map (cachedRecord st) (hits s st w keys)), map snd (misses s st w keys))
   \<and> (keys_error w = None \<and> maxWorkers (workerPool s) \<noteq> 0 \<longrightarrow>
        set (offered (actions (GetAggregatedData s w st))) =
          (\<lambda>(i, key). \<lparr>t_ID = key_ID key, t_APIKey = key_Key key\<rparr>) ` set (misses s st w (st_keys st))
      \<and> (distinct (map key_ID (st_keys st)) \<longrightarrow>
            (\<forall>(i, key)\<in>set (hits s st w (st_keys st)).
               \<forall>task\<in>set (offered (actions (GetAggregatedData s w st))). t_ID task \<noteq> key_ID key))
      \<and> (\<exists>d fresh. returned (GetAggregatedData s w st) = Returned d
            \<and> Data d = concat (map (cachedRecord st) (hits s st w (st_keys st))) @ fresh
            \<and> length fresh = length (misses s st w (st_keys st))))
   \<and> (minDuration < cacheTTL s \<and> cacheTTL s \<le> maxDuration \<longrightarrow>
        (cacheHit s st w (i, key) \<longleftrightarrow>
           (\<exists>usage. GetUsage (usage_error w i) st (key_ID key) = (Some usage, None)
              \<and> checked_at w i - su_LastUpdated usage < cacheTTL s)))"
proof (intro conjI impI)
  show "partitionKeys s st w keys =
     (concat (map (cachedRecord st) (hits s st w keys)), map snd (misses s st w keys))"
    by (rule partitionKeys_eq)
next
  assume a: "keys_error w = None \<and> maxWorkers (workerPool s) \<noteq> 0"
  note eq = GetAggregatedData_eq [OF conjunct1 [OF a] conjunct2 [OF a], of st]
  have "set (offered (actions (GetAggregatedData s w st))) =
        (\<lambda>key. \<lparr>t_ID = key_ID key, t_APIKey = key_Key key\<rparr>) ` set (map snd (misses s st w (st_keys st)))"
    unfolding eq Let_def by (simp add: offered_append set_offered_batch)
  then show off: "set (offered (actions (GetAggregatedData s w st))) =
          (\<lambda>(i, key). \<lparr>t_ID = key_ID key, t_APIKey = key_Key key\<rparr>) ` set (misses s st w (st_keys st))"
    by (force simp: image_iff)
  show "\<forall>(i, key)\<in>set (hits s st w (st_keys st)).
               \<forall>task\<in>set (offered (actions (GetAggregatedData s w st))). t_ID task \<noteq> key_ID key"
    if "distinct (map key_ID (st_keys st))"
    unfolding off using hit_miss_distinct [OF that] by fastforce
  show "\<exists>d fresh. returned (GetAggregatedData s w st) = Returned d
            \<and> Data d = concat (map (cachedRecord st) (hits s st w (st_keys st))) @ fresh
            \<and> length fresh = length (misses s st w (st_keys st))"
    unfolding eq Let_def by (simp add: report_Data length_batchRecords)
next
  assume "minDuration < cacheTTL s \<and> cacheTTL s \<le> maxDuration"
  then show "cacheHit s st w (i, key) \<longleftrightarrow>
           (\<exists>usage. GetUsage (usage_error w i) st (key_ID key) = (Some usage, None)
              \<and> checked_at w i - su_LastUpdated usage < cacheTTL s)"
    by (auto simp: cacheHit_def Since_less split: option.splits prod.splits)
qed


lemma demo_hits: "hits demo_service demo_store demo_world (st_keys demo_store) = [(1, keyB)]"
  by code_simp

lemma demo_misses: "misses demo_service demo_store demo_world (st_keys demo_store) = [(0, keyA)]"
  by code_simp

lemma demo_offered:
  "offered (actions (GetAggregatedData demo_service demo_world demo_store)) =
   [\<lparr>t_ID = ''a'', t_APIKey = key_Key keyA\<rparr>]"
  by code_simp

lemma demo_keys_error: "keys_error demo_world = None"
  by (simp add: demo_world_def)

lemma demo_ttl: "minDuration < cacheTTL demo_service \<and> cacheTTL demo_service \<le> maxDuration"
  by (simp add: demo_service_def NewAPIKeyService_def minDuration_def maxDuration_def Minute_def Second_def)

theorem cache_hits_are_not_fetched_witness:
  "keys_error demo_world = None \<and> maxWorkers (workerPool demo_service) \<noteq> 0
   \<and> distinct (map key_ID (st_keys demo_store))
   \<and> minDuration < cacheTTL demo_service \<and> cacheTTL demo_service \<le> maxDuration
   \<and> hits demo_service demo_store demo_world (st_keys demo_store) = [(1, keyB)]
   \<and> partitionKeys demo_service demo_store demo_world (st_keys demo_store) = ([fromStorage recB], [keyA])
   \<and> set (offered (actions (GetAggregatedData demo_service demo_world demo_store))) =
        {\<lparr>t_ID = ''a'', t_APIKey = key_Key keyA\<rparr>}
   \<and> list_all (\<lambda>task. t_ID task \<noteq> key_ID keyB)
         (offered (actions (GetAggregatedData demo_service demo_world demo_store)))
   \<and> cacheHit demo_service demo_store demo_world (1, keyB)
   \<and> (\<exists>usage. GetUsage (usage_error demo_world 1) demo_store (key_ID keyB) = (Some usage, None)
              \<and> checked_at demo_world 1 - su_LastUpdated usage < cacheTTL demo_service)"
proof -
  note inst = cache_hits_are_not_fetched [of demo_service demo_store demo_world "st_keys demo_store" 1 keyB]
  have dist: "distinct (map key_ID (st_keys demo_store))"
    by (simp add: demo_store_def keyA_def keyB_def)
  have part: "partitionKeys demo_service demo_store demo_world (st_keys demo_store) = ([fromStorage recB], [keyA])"
  proof -
    from inst have "partitionKeys demo_service demo_store demo_world (st_keys demo_store) =
      (concat (map (cachedRecord demo_store) (hits demo_service demo_store demo_world (st_keys demo_store))),
       map snd (misses demo_service demo_store demo_world (st_keys demo_store)))"
      by blast
    then show ?thesis
      unfolding demo_hits demo_misses by (simp add: cachedRecord_def demo_store_def keyB_def)
  qed
  have off: "set (offered (actions (GetAggregatedData demo_service demo_world demo_store))) =
        {\<lparr>t_ID = ''a'', t_APIKey = key_Key keyA\<rparr>}"
  proof -
    from inst demo_keys_error demo_workers
    have "set (offered (actions (GetAggregatedData demo_service demo_world demo_store))) =
          (\<lambda>(i, key). \<lparr>t_ID = key_ID key, t_APIKey = key_Key key\<rparr>) `
            set (misses demo_service demo_store demo_world (st_keys demo_store))"
      by blast
    then show ?thesis unfolding demo_misses by (simp add: keyA_def)
  qed
  have no: "\<forall>task\<in>set (offered (actions (GetAggregatedData demo_service demo_world demo_store))).
         t_ID task \<noteq> key_ID keyB"
  proof -
    from inst demo_keys_error demo_workers dist
    have "\<forall>(i, key)\<in>set (hits demo_service demo_store demo_world (st_keys demo_store)).
               \<forall>task\<in>set (offered (actions (GetAggregatedData demo_service demo_world demo_store))).
                 t_ID task \<noteq> key_ID key"
      by blast
    then show ?thesis unfolding demo_hits by simp
  qed
  have hit: "cacheHit demo_service demo_store demo_world (1, keyB)"
    by code_simp
  with inst demo_ttl
  have ex: "\<exists>usage. GetUsage (usage_error demo_world 1) demo_store (key_ID keyB) = (Some usage, None)
              \<and> checked_at demo_world 1 - su_LastUpdated usage < cacheTTL demo_service"
    by blast
  from no have no': "list_all (\<lambda>task. t_ID task \<noteq> key_ID keyB)
         (offered (actions (GetAggregatedData demo_service demo_world demo_store)))"
    by (simp add: list_all_iff)
  show ?thesis
    using demo_keys_error demo_workers dist demo_ttl demo_hits part off no' hit ex by simp
qed

subsection \<open>What is written to the cache\<close>

lemma BatchSaveUsage_lookup:
  "st_usage (BatchSaveUsage l valid st) ident = Some usage \<Longrightarrow>
   st_usage st ident = Some usage \<or> usage \<in> set valid"
proof (induction valid arbitrary: st)
  case Nil
  then show ?case by simp
next
  case (Cons a valid)
  let ?st = "if l a then st\<lparr>st_usage := (st_usage st)(su_ID a \<mapsto> a)\<rparr> else st"
  from Cons.prems have "st_usage (BatchSaveUsage l valid ?st) ident = Some usage" by simp
  from Cons.IH [OF this] have "st_usage ?st ident = Some usage \<or> usage \<in> set valid" .
  then show ?case by (auto split: if_splits)
qed

lemma storageUsage_error: "su_Error (storageUsage usage) = []"
  by (simp add: storageUsage_def)

lemma BatchSave_keyActions: "BatchSave valid \<notin> set (keyActions a key)"
  by (simp add: keyActions_def Let_def)

lemma BatchProcess_panics:
  "maxWorkers wp = 0 \<Longrightarrow> keys \<noteq> [] \<Longrightarrow> BatchProcess wp bw keys = (Panicked IntegerDivideByZero, [])"
  by (simp add: BatchProcess_def timeoutDuration_def)

lemma GetAggregatedData_idle:
  assumes "keys_error w \<noteq> None \<or> maxWorkers (workerPool s) = 0"
  shows "actions (GetAggregatedData s w st) = [] \<and> store_after (GetAggregatedData s w st) = st"
proof (cases "keys_error w")
  case (Some err)
  then show ?thesis by (simp add: GetAggregatedData_def GetAllAPIKeys_def)
next
  case None
  with assms have mw: "maxWorkers (workerPool s) = 0" by simp
  obtain cachedResults uncachedKeys where
    p: "partitionKeys s st w (st_keys st) = (cachedResults, uncachedKeys)"
    by (cases "partitionKeys s st w (st_keys st)")
  show ?thesis
  proof (cases "uncachedKeys = []")
    case True
    then show ?thesis using None p
      by (simp add: GetAggregatedData_def GetAllAPIKeys_def)
  next
    case False
    from BatchProcess_panics [OF mw False, of "batch w"] False None p show ?thesis
      by (simp add: GetAggregatedData_def GetAllAPIKeys_def)
  qed
qed

lemma saved_records:
  assumes "BatchSave valid \<in> set (actions (GetAggregatedData s w st))"
  shows "valid = map storageUsage (errorFree (batchRecords (batch w)
           (map snd (misses s st w (st_keys st)))))"
proof (cases "keys_error w = None \<and> maxWorkers (workerPool s) \<noteq> 0")
  case True
  note eq = GetAggregatedData_eq [OF conjunct1 [OF True] conjunct2 [OF True], of st]
  from assms show ?thesis
    unfolding eq Let_def by (auto simp: BatchSave_keyActions split: if_splits)
next
  case False
  then have "actions (GetAggregatedData s w st) = []" using GetAggregatedData_idle [of w s st] by blast
  with assms show ?thesis by simp
qed

lemma saved_error_free:
  assumes "BatchSave valid \<in> set (actions (GetAggregatedData s w st))" and "usage \<in> set valid"
  shows "su_Error usage = []"
  using assms(2) unfolding saved_records [OF assms(1)] by (auto simp: storageUsage_error)

lemma store_after_lookup:
  assumes "st_usage (store_after (GetAggregatedData s w st)) ident = Some usage"
  shows "st_usage st ident = Some usage \<or> su_Error usage = []"
proof (cases "keys_error w = None \<and> maxWorkers (workerPool s) \<noteq> 0")
  case True
  note eq = GetAggregatedData_eq [OF conjunct1 [OF True] conjunct2 [OF True], of st]
  from assms show ?thesis
    unfolding eq Let_def
    by (auto simp: storageUsage_error split: if_splits dest!: BatchSaveUsage_lookup)
next
  case False
  then have "store_after (GetAggregatedData s w st) = st" using GetAggregatedData_idle [of w s st] by blast
  with assms show ?thesis by simp
qed

lemma writePath_errorFree: "writePath s st \<Longrightarrow> errorFreeCache st"
proof (induction rule: writePath.induct)
  case (empty st)
  then show ?case by (simp add: errorFreeCache_def)
next
  case (aggregated st w)
  then show ?case
    unfolding errorFreeCache_def using store_after_lookup by blast
next
  case (removed st st')
  then show ?case unfolding errorFreeCache_def by blast
qed

lemma cached_error_free:
  assumes "errorFreeCache st" and "usage \<in> set (fst (partitionKeys s st w keys))"
  shows "u_Error usage = []"
proof -
  from assms(2) obtain i key where "(i, key) \<in> set (hits s st w keys)" "usage \<in> set (cachedRecord st (i, key))"
    by (auto simp: partitionKeys_eq)
  then obtain su where "st_usage st (key_ID key) = Some su" "usage = fromStorage su"
    by (cases "st_usage st (key_ID key)") (auto simp: cachedRecord_def)
  with assms(1) show ?thesis by (simp add: errorFreeCache_def fromStorage_def)
qed

text \<open>
  C9. The records of a batched write that the aggregation sends to the usage cache are
  the records of the batch whose error is empty, and each has an empty error, so an
  entry of the cache after an aggregation is an entry that was there before or has an
  empty error. Hence on a cache that only this write path has
  filled, from an empty one, with entries expiring or deleted in between, every record
  that the partition reads from the cache has an empty error.
\<close>

theorem cache_writes_are_error_free:
  "(\<forall>valid. BatchSave valid \<in> set (actions (GetAggregatedData s w st)) \<longrightarrow>
       valid = map storageUsage (errorFree (batchRecords (batch w)
                 (map snd (misses s st w (st_keys st)))))
       \<and> (\<forall>usage\<in>set valid. su_Error usage = []))
   \<and> (\<forall>ident usage. st_usage (store_after (GetAggregatedData s w st)) ident = Some usage \<longrightarrow>
         st_usage st ident = Some usage \<or> su_Error usage = [])
   \<and> (writePath s st \<longrightarrow> (\<forall>usage\<in>set (fst (partitionKeys s st w' keys)). u_Error usage = []))"
  using saved_records [of _ s w st] saved_error_free [of _ s w st] store_after_lookup [of s w st]
    cached_error_free [OF writePath_errorFree [of s st], of _ s w' keys]
  by blast


lemma cold_run_actions:
  "actions (GetAggregatedData demo_service demo_world cold_store) =
   [TrySend \<lparr>t_ID = ''a'', t_APIKey = key_Key keyA\<rparr> True,
    TrySend \<lparr>t_ID = ''b'', t_APIKey = key_Key keyB\<rparr> True,
    BatchSave [\<lparr>su_ID = ''a'', su_StartDate = ''N/A'', su_EndDate = ''2024-02-01'',
                su_TotalAllowance = 50, su_OrgTotalUsed = 20, su_Remaining = 30, su_UsedRatio = 0,
                su_LastUpdated = 1061000000000, su_Error = []\<rparr>]]"
  by code_simp

lemma warm_partition:
  "fst (partitionKeys demo_service (store_after (GetAggregatedData demo_service demo_world cold_store))
          demo_world [keyA, keyB]) =
   [\<lparr>u_ID = ''a'', u_Key = [], u_StartDate = ''N/A'', u_EndDate = ''2024-02-01'',
     u_TotalAllowance = 50, u_OrgTotalUsed = 20, u_Remaining = 30, u_UsedRatio = 0,
     u_LastUpdated = 1061000000000, u_Error = []\<rparr>]"
  by code_simp

theorem cache_writes_are_error_free_witness:
  "writePath demo_service (store_after (GetAggregatedData demo_service demo_world cold_store))
   \<and> BatchSave [\<lparr>su_ID = ''a'', su_StartDate = ''N/A'', su_EndDate = ''2024-02-01'',
                su_TotalAllowance = 50, su_OrgTotalUsed = 20, su_Remaining = 30, su_UsedRatio = 0,
                su_LastUpdated = 1061000000000, su_Error = []\<rparr>]
       \<in> set (actions (GetAggregatedData demo_service demo_world cold_store))
   \<and> fst (partitionKeys demo_service (store_after (GetAggregatedData demo_service demo_world cold_store))
          demo_world [keyA, keyB]) =
       [\<lparr>u_ID = ''a'', u_Key = [], u_StartDate = ''N/A'', u_EndDate = ''2024-02-01'',
         u_TotalAllowance = 50, u_OrgTotalUsed = 20, u_Remaining = 30, u_UsedRatio = 0,
         u_LastUpdated = 1061000000000, u_Error = []\<rparr>]
   \<and> list_all (\<lambda>usage. u_Error usage = [])
         (fst (partitionKeys demo_service
                 (store_after (GetAggregatedData demo_service demo_world cold_store))
                 demo_world [keyA, keyB]))
   \<and> list_all (\<lambda>usage. su_Error usage = [])
         [\<lparr>su_ID = ''a'', su_StartDate = ''N/A'', su_EndDate = ''2024-02-01'',
           su_TotalAllowance = 50 :: int, su_OrgTotalUsed = 20, su_Remaining = 30, su_UsedRatio = 0,
           su_LastUpdated = 1061000000000, su_Error = []\<rparr>]"
proof -
  have "writePath demo_service cold_store"
    by (rule writePath.empty) (simp add: cold_store_def)
  then have wp: "writePath demo_service (store_after (GetAggregatedData demo_service demo_world cold_store))"
    by (rule writePath.aggregated)
  have mem: "BatchSave [\<lparr>su_ID = ''a'', su_StartDate = ''N/A'', su_EndDate = ''2024-02-01'',
                su_TotalAllowance = 50, su_OrgTotalUsed = 20, su_Remaining = 30, su_UsedRatio = 0,
                su_LastUpdated = 1061000000000, su_Error = []\<rparr>]
       \<in> set (actions (GetAggregatedData demo_service demo_world cold_store))"
    unfolding cold_run_actions by simp
  from cache_writes_are_error_free
         [of demo_service demo_world "store_after (GetAggregatedData demo_service demo_world cold_store)"
             demo_world "[keyA, keyB]"] wp
  have read: "\<forall>usage\<in>set (fst (partitionKeys demo_service
                             (store_after (GetAggregatedData demo_service demo_world cold_store))
                             demo_world [keyA, keyB])). u_Error usage = []"
    by blast
  from cache_writes_are_error_free [of demo_service demo_world cold_store demo_world "[keyA, keyB]"]
  have written: "\<forall>valid. BatchSave valid \<in> set (actions (GetAggregatedData demo_service demo_world cold_store)) \<longrightarrow>
         (\<forall>usage\<in>set valid. su_Error usage = [])"
    by blast
  from read have read': "list_all (\<lambda>usage. u_Error usage = [])
         (fst (partitionKeys demo_service
                 (store_after (GetAggregatedData demo_service demo_world cold_store))
                 demo_world [keyA, keyB]))"
    by (simp add: list_all_iff)
  from written mem have written': "list_all (\<lambda>usage. su_Error usage = [])
         [\<lparr>su_ID = ''a'', su_StartDate = ''N/A'', su_EndDate = ''2024-02-01'',
           su_TotalAllowance = 50 :: int, su_OrgTotalUsed = 20, su_Remaining = 30, su_UsedRatio = 0,
           su_LastUpdated = 1061000000000, su_Error = []\<rparr>]"
    unfolding list_all_iff by blast
  show ?thesis using wp mem warm_partition read' written' by (intro conjI)
qed

subsection \<open>The order of the report\<close>

lemma filter_none_compl: "filter P xs = [] \<Longrightarrow> filter (\<lambda>x. \<not> P x) xs = xs"
  by (induction xs) (auto split: if_splits)

lemma filter_compl_none: "filter (\<lambda>x. \<not> P x) xs = [] \<Longrightarrow> filter P xs = xs"
  by (induction xs) (auto split: if_splits)

lemma enumerate_IDs: "map (\<lambda>(i, key). key_ID key) (enumerate n keys) = map key_ID keys"
  by (induction keys arbitrary: n) simp_all

text \<open>
  C1, as the code has it. When listing the keys works, the pool has workers and every
  cached record is stored under its own identifier, the aggregation returns a report
  whose data list is as long as the list of keys. The identifiers of the list are those of
  the keys that are cache hits, in the order of the input, followed by those of the other
  keys, in the order of the input, whatever the order in which the fetches complete. So
  each position bears the identifier of the key of the input at that position when no
  key is a hit or every key is.
\<close>

theorem report_identifiers:
  assumes "keys_error w = None" and "maxWorkers (workerPool s) \<noteq> 0" and "ownIdent st"
  shows "\<exists>d. returned (GetAggregatedData s w st) = Returned d
     \<and> length (Data d) = length (st_keys st)
     \<and> map u_ID (Data d) =
         map (\<lambda>(i, key). key_ID key) (hits s st w (st_keys st)) @
         map (\<lambda>(i, key). key_ID key) (misses s st w (st_keys st))
     \<and> (hits s st w (st_keys st) = [] \<or> misses s st w (st_keys st) = [] \<longrightarrow>
          map u_ID (Data d) = map key_ID (st_keys st))"
proof -
  let ?keys = "st_keys st"
  let ?cached = "concat (map (cachedRecord st) (hits s st w ?keys))"
  let ?fresh = "batchRecords (batch w) (map snd (misses s st w ?keys))"
  let ?d = "report w ?keys (?cached @ ?fresh)"
  have ret: "returned (GetAggregatedData s w st) = Returned ?d"
    unfolding GetAggregatedData_eq [OF assms(1,2)] Let_def by simp
  have len: "length (Data ?d) = length ?keys"
    using length_hits_misses [of s st w ?keys]
    by (simp add: report_Data length_cached length_batchRecords)
  have ids: "map u_ID (Data ?d) =
         map (\<lambda>(i, key). key_ID key) (hits s st w ?keys) @
         map (\<lambda>(i, key). key_ID key) (misses s st w ?keys)"
    by (simp add: report_Data cached_IDs [OF assms(3)] batchRecords_IDs comp_def case_prod_unfold)
  have same: "map u_ID (Data ?d) = map key_ID ?keys"
    if "hits s st w ?keys = [] \<or> misses s st w ?keys = []"
    using that
  proof
    assume h: "hits s st w ?keys = []"
    then have "misses s st w ?keys = enumerate 0 ?keys"
      unfolding hits_def misses_def by (rule filter_none_compl)
    with h ids show ?thesis by (simp add: enumerate_IDs)
  next
    assume m: "misses s st w ?keys = []"
    then have "hits s st w ?keys = enumerate 0 ?keys"
      unfolding hits_def misses_def by (rule filter_compl_none)
    with m ids show ?thesis by (simp add: enumerate_IDs)
  qed
  show ?thesis using ret len ids same by (intro exI [of _ ?d]) blast
qed

lemma demo_ownIdent: "ownIdent demo_store"
  by (simp add: ownIdent_def demo_store_def recB_def)

lemma demo_run:
  "returned (GetAggregatedData demo_service demo_world demo_store) =
   Returned \<lparr>UpdateTime = ''2024-01-01 00:17:40'', TotalCount = 2,
             Totals = \<lparr>TotalOrgTotalTokensUsed = 60, TotalAllowance = 150\<rparr>,
             Data = [\<lparr>u_ID = ''b'', u_Key = [], u_StartDate = ''2024-01-01'',
                      u_EndDate = ''2024-02-01'', u_TotalAllowance = 100, u_OrgTotalUsed = 40,
                      u_Remaining = 60, u_UsedRatio = 0, u_LastUpdated = 1000000000000,
                      u_Error = []\<rparr>,
                     \<lparr>u_ID = ''a'', u_Key = ''fk-a...aaaa'', u_StartDate = ''N/A'',
                      u_EndDate = ''2024-02-01'', u_TotalAllowance = 50, u_OrgTotalUsed = 20,
                      u_Remaining = 30, u_UsedRatio = 0, u_LastUpdated = 1061000000000,
                      u_Error = []\<rparr>]\<rparr>"
  by code_simp

theorem report_identifiers_witness:
  "keys_error demo_world = None \<and> maxWorkers (workerPool demo_service) \<noteq> 0 \<and> ownIdent demo_store
   \<and> (\<exists>d. returned (GetAggregatedData demo_service demo_world demo_store) = Returned d
        \<and> length (Data d) = 2 \<and> map u_ID (Data d) = [''b'', ''a''])"
proof -
  from report_identifiers [OF demo_keys_error demo_workers demo_ownIdent]
  obtain d where d: "returned (GetAggregatedData demo_service demo_world demo_store) = Returned d"
    "length (Data d) = length (st_keys demo_store)"
    "map u_ID (Data d) =
         map (\<lambda>(i, key). key_ID key) (hits demo_service demo_store demo_world (st_keys demo_store)) @
         map (\<lambda>(i, key). key_ID key) (misses demo_service demo_store demo_world (st_keys demo_store))"
    by blast
  from d(2) have l: "length (Data d) = 2" by (simp add: demo_store_def)
  from d(3) have i: "map u_ID (Data d) = [''b'', ''a'']"
    unfolding demo_hits demo_misses by (simp add: keyA_def keyB_def)
  show ?thesis using demo_keys_error demo_workers demo_ownIdent d(1) l i
    by (intro conjI exI [of _ d])
qed

text \<open>
  C1 as it is stated fails: with two keys of which the second is a cache hit and the first
  is fetched, the report has the record of the second key at the first position.
\<close>

theorem report_order_counterexample:
  "map key_ID (st_keys demo_store) = [''a'', ''b'']
   \<and> returned (GetAggregatedData demo_service demo_world demo_store) =
     Returned \<lparr>UpdateTime = ''2024-01-01 00:17:40'', TotalCount = 2,
             Totals = \<lparr>TotalOrgTotalTokensUsed = 60, TotalAllowance = 150\<rparr>,
             Data = [\<lparr>u_ID = ''b'', u_Key = [], u_StartDate = ''2024-01-01'',
                      u_EndDate = ''2024-02-01'', u_TotalAllowance = 100, u_OrgTotalUsed = 40,
                      u_Remaining = 60, u_UsedRatio = 0, u_LastUpdated = 1000000000000,
                      u_Error = []\<rparr>,
                     \<lparr>u_ID = ''a'', u_Key = ''fk-a...aaaa'', u_StartDate = ''N/A'',
                      u_EndDate = ''2024-02-01'', u_TotalAllowance = 50, u_OrgTotalUsed = 20,
                      u_Remaining = 30, u_UsedRatio = 0, u_LastUpdated = 1061000000000,
                      u_Error = []\<rparr>]\<rparr>"
  by code_simp

end
